theory Spec2Isabelle
  imports Main "HOL-Library.AList"
begin

section \<open>Python strings\<close>

text \<open>
  Strings are character lists, and a \<^typ>\<open>char\<close> is a code point below 256: the model
  covers the texts whose characters all lie in that range. \<^verbatim>\<open>str.strip()\<close> removes the
  characters for which \<^verbatim>\<open>str.isspace\<close> holds; below 256 these are the tab, the line
  feed, the vertical tab, the form feed, the carriage return, the four separators
  \<^verbatim>\<open>0x1C\<close> to \<^verbatim>\<open>0x1F\<close>, the space, the next-line character \<^verbatim>\<open>0x85\<close> and the
  no-break space \<^verbatim>\<open>0xA0\<close>.
\<close>

definition NL :: char where
  "NL = CHR 0x0A"

definition py_isspace :: "char \<Rightarrow> bool" where
  "py_isspace c = (c \<in> set [CHR 0x09, CHR 0x0A, CHR 0x0B, CHR 0x0C, CHR 0x0D,
                               CHR 0x1C, CHR 0x1D, CHR 0x1E, CHR 0x1F, CHR 0x20,
                               CHR 0x85, CHR 0xA0])"

definition lstrip :: "string \<Rightarrow> string" where
  "lstrip s = dropWhile py_isspace s"

definition rstrip :: "string \<Rightarrow> string" where
  "rstrip s = rev (dropWhile py_isspace (rev s))"

definition strip :: "string \<Rightarrow> string" where
  "strip s = rstrip (lstrip s)"

text \<open>\<^verbatim>\<open>sep.join(xs)\<close>\<close>

fun join :: "string \<Rightarrow> string list \<Rightarrow> string" where
  "join sep [] = []"
| "join sep [x] = x"
| "join sep (x # y # ys) = x @ sep @ join sep (y # ys)"

text \<open>\<^verbatim>\<open>str(n)\<close> for a non-negative integer: its decimal digits.\<close>

definition digit_char :: "nat \<Rightarrow> char" where
  "digit_char d = char_of (48 + d)"

fun str_of_nat :: "nat \<Rightarrow> string" where
  "str_of_nat n = (if n < 10 then [digit_char n] else str_of_nat (n div 10) @ [digit_char (n mod 10)])"

declare str_of_nat.simps [simp del]

definition endswith :: "string \<Rightarrow> string \<Rightarrow> bool" where
  "endswith s suffix =
     (length suffix \<le> length s \<and> drop (length s - length suffix) s = suffix)"

text \<open>
  The errors that escape from the code modelled here: a list index out of range, a value of
  the wrong type, the failure of fitting the vectoriser, and the three errors of the graph
  runtime (a branch that names no destination, two writes to one key in one step, the step
  limit).
\<close>

datatype error =
    IndexError
  | TypeError
  | ValueError string
  | BranchError
  | InvalidUpdateError
  | GraphRecursionError

section \<open>The retriever (rag/retrieval.py)\<close>

record chunk =
  content :: string
  source :: string
  chunk_id :: nat

text \<open>
  \<^verbatim>\<open>re.split(r'\n\n+', content)\<close>: the pieces of the text between the maximal runs
  of at least two line breaks, found from the left. A run at the very start or end leaves an
  empty piece there.
\<close>

function re_split :: "string \<Rightarrow> string list" where
  "re_split [] = [[]]"
| "re_split (c # cs) =
     (if c = NL \<and> cs \<noteq> [] \<and> hd cs = NL
      then [] # re_split (dropWhile (\<lambda>x. x = NL) cs)
      else (case re_split cs of [] \<Rightarrow> [[c]] | p # ps \<Rightarrow> (c # p) # ps))"
  by pat_completeness auto
termination
  by (relation "measure length") (auto simp: le_imp_less_Suc length_dropWhile_le)

text \<open>The loop of \<^verbatim>\<open>_split_into_chunks\<close> over \<^verbatim>\<open>enumerate(paragraphs)\<close>.\<close>

fun chunk_loop :: "chunk list \<Rightarrow> string \<Rightarrow> (nat \<times> string) list \<Rightarrow> chunk list" where
  "chunk_loop chunks filename [] = chunks"
| "chunk_loop chunks filename ((i, para) # rest) =
     chunk_loop
       (if strip para \<noteq> []
        then chunks @ [\<lparr>content = strip para, source = filename, chunk_id = i\<rparr>]
        else chunks)
       filename rest"

definition split_into_chunks :: "chunk list \<Rightarrow> string \<Rightarrow> string \<Rightarrow> chunk list" where
  "split_into_chunks chunks text filename =
     (let paragraphs = re_split text
      in chunk_loop chunks filename (enumerate 0 paragraphs))"

text \<open>
  The retriever holds the chunks and the matrix of their TF-IDF vectors, one row for each
  chunk, or \<^verbatim>\<open>None\<close> before the index is built. The vectoriser and the cosine
  similarity belong to scikit-learn and the sort to NumPy: they are parameters.
\<close>

record 'vec LocalRetriever =
  chunks :: "chunk list"
  tfidf_matrix :: "'vec list option"

definition new_retriever :: "'vec LocalRetriever" where
  "new_retriever = \<lparr>chunks = [], tfidf_matrix = None\<rparr>"

text \<open>
  \<^verbatim>\<open>index_directory\<close>, from the files that \<^verbatim>\<open>os.walk\<close> yields, each with its name
  and its text, in the order of the walk.
\<close>

fun index_files :: "'vec LocalRetriever \<Rightarrow> (string \<times> string) list \<Rightarrow> 'vec LocalRetriever" where
  "index_files r [] = r"
| "index_files r ((file, text) # files) =
     index_files
       (if endswith file ''.md''
        then r\<lparr>chunks := split_into_chunks (chunks r) text file\<rparr>
        else r)
       files"

definition index_directory ::
  "(string list \<Rightarrow> error + 'vec list) \<Rightarrow> 'vec LocalRetriever \<Rightarrow> (string \<times> string) list
   \<Rightarrow> error + 'vec LocalRetriever" where
  "index_directory fit_transform r files =
     (let r' = index_files r files
      in if chunks r' \<noteq> []
         then (case fit_transform (map content (chunks r')) of
                 Inl e \<Rightarrow> Inl e
               | Inr m \<Rightarrow> Inr (r'\<lparr>tfidf_matrix := Some m\<rparr>))
         else Inr r')"

text \<open>The slice \<^verbatim>\<open>xs[-k:]\<close> for any integer \<open>k\<close>.\<close>

definition slice_last :: "int \<Rightarrow> 'a list \<Rightarrow> 'a list" where
  "slice_last k xs =
     (let n = int (length xs);
          start = - k;
          lo = (if start < 0 then max 0 (n + start) else min start n)
      in drop (nat lo) xs)"

record 's search_result =
  score :: 's
  chunk :: chunk

text \<open>The loop that builds the results; an index out of range raises.\<close>

fun collect_results :: "'s list \<Rightarrow> chunk list \<Rightarrow> nat list \<Rightarrow> error + 's search_result list" where
  "collect_results sims cs [] = Inr []"
| "collect_results sims cs (i # idx) =
     (if i < length sims \<and> i < length cs
      then (case collect_results sims cs idx of
              Inl e \<Rightarrow> Inl e
            | Inr rs \<Rightarrow> Inr (\<lparr>score = sims ! i, chunk = cs ! i\<rparr> # rs))
      else Inl IndexError)"

definition search ::
  "('s list \<Rightarrow> nat list) \<Rightarrow> (string \<Rightarrow> 'vec) \<Rightarrow> ('vec \<Rightarrow> 'vec \<Rightarrow> 's) \<Rightarrow> 'vec LocalRetriever
   \<Rightarrow> string \<Rightarrow> int \<Rightarrow> error + 's search_result list" where
  "search argsort transform cosine r query k =
     (case tfidf_matrix r of
        None \<Rightarrow> Inr []
      | Some matrix \<Rightarrow>
          if chunks r = [] then Inr []
          else
            let query_vector = transform query;
                cosine_similarities = map (cosine query_vector) matrix;
                top_k_indices = rev (slice_last k (argsort cosine_similarities))
            in collect_results cosine_similarities (chunks r) top_k_indices)"

text \<open>
  NumPy promises of \<^verbatim>\<open>argsort\<close> with the default kind only that the indices it returns
  sort the array; the order of the indices of equal values is left to the sort and differs
  between machines. \<open>stable_argsort\<close> is one sort that keeps that promise, the one that
  leaves equal values in the order of their indices; it serves as an example of an answer,
  and no general statement below depends on it.
\<close>

definition stable_argsort :: "('s::linorder) list \<Rightarrow> nat list" where
  "stable_argsort xs = sort_key (\<lambda>i. xs ! i) [0..<length xs]"

text \<open>
  For the statement of what the splitting does: a piece is free of blank lines when no two
  line breaks follow one another in it, and \<open>weave\<close> puts pieces and the separators between
  them back together.
\<close>

fun blank_free :: "string \<Rightarrow> bool" where
  "blank_free (a # b # cs) = (\<not> (a = NL \<and> b = NL) \<and> blank_free (b # cs))"
| "blank_free cs = True"

fun weave :: "'a list list \<Rightarrow> 'a list list \<Rightarrow> 'a list" where
  "weave [] seps = []"
| "weave (p # ps) [] = p"
| "weave (p # ps) (s # seps) = p @ s @ weave ps seps"

text \<open>
  What the retriever relies on. The list \<open>idx\<close> is an answer of \<^verbatim>\<open>argsort\<close> for \<open>xs\<close>
  when it holds every index of \<open>xs\<close> once and the values at its indices ascend. An index is
  built when its matrix is set and has one row for each chunk, as \<^verbatim>\<open>index_directory\<close>
  leaves it. \<open>similarities\<close> is the vector \<^verbatim>\<open>cosine_similarities\<close> of a search.
\<close>

definition is_argsort_of :: "('s::linorder) list \<Rightarrow> nat list \<Rightarrow> bool" where
  "is_argsort_of xs idx =
     (distinct idx \<and> set idx = {0..<length xs} \<and> sorted (map (\<lambda>i. xs ! i) idx))"

definition built :: "'vec LocalRetriever \<Rightarrow> bool" where
  "built r =
     (case tfidf_matrix r of
        None \<Rightarrow> False
      | Some m \<Rightarrow> chunks r \<noteq> [] \<and> length m = length (chunks r))"

definition similarities ::
  "(string \<Rightarrow> 'vec) \<Rightarrow> ('vec \<Rightarrow> 'vec \<Rightarrow> 's) \<Rightarrow> 'vec LocalRetriever \<Rightarrow> string \<Rightarrow> 's list" where
  "similarities transform cosine r query =
     (case tfidf_matrix r of None \<Rightarrow> [] | Some m \<Rightarrow> map (cosine (transform query)) m)"

section \<open>The query tool (tools/sqlite\_tool.py)\<close>

text \<open>
  The store is a parameter: on a query it raises an \<^verbatim>\<open>sqlite3.Error\<close> with a message
  (\<open>Inl\<close>), or leaves a cursor with the rows that \<^verbatim>\<open>fetchall\<close> returns and its
  \<^verbatim>\<open>description\<close>, \<^verbatim>\<open>None\<close> for a statement with no result columns. Of each entry
  of the description only the first component, the column name, is read, and the model keeps
  only that one.
\<close>

datatype 'v cursor = Cursor (fetchall: "'v list list") (description: "string list option")

text \<open>The first component of the returned pair holds the rows or the error message.\<close>

datatype 'v rows_or_message = Rows "'v list list" | Message string

definition run_sqlite_query ::
  "(string \<Rightarrow> string + 'v cursor) \<Rightarrow> string \<Rightarrow> 'v rows_or_message \<times> string list option" where
  "run_sqlite_query store query =
     (case store query of
        Inl e \<Rightarrow> (Message e, None)
      | Inr cur \<Rightarrow>
          (let rows = fetchall cur;
               column_names = (case description cur of
                                 None \<Rightarrow> []
                               | Some d \<Rightarrow> if d \<noteq> [] then d else [])
           in (Rows rows, Some column_names)))"

section \<open>The state of the agent (graph\_hybrid.py)\<close>

text \<open>
  \<^verbatim>\<open>AgentState\<close> is a typed dictionary. Every key is set by \<^verbatim>\<open>run_batch\<close> before
  the graph starts, the nullable ones to \<^verbatim>\<open>None\<close>. The type parameter is the type of the
  values stored in a database cell.
\<close>

record 'v AgentState =
  question :: string
  format_hint :: "string option"
  classification :: "string option"
  sql_query :: "string option"
  sql_results :: "(string \<times> 'v) list list option"
  retrieved_docs :: "string list option"
  errors :: "string list"
  retry_count :: int
  final_answer :: "string option"

subsection \<open>Conditional edges\<close>

text \<open>
  A routing function returns the label of the next step. \<^verbatim>\<open>route_question\<close> has no
  \<^verbatim>\<open>else\<close> branch: on any other classification the Python function falls off its
  end and returns \<^verbatim>\<open>None\<close>.
\<close>

definition route_question :: "'v AgentState \<Rightarrow> string option" where
  "route_question state =
     (if classification state = Some ''SQL'' then Some ''generate_sql''
      else if classification state = Some ''RAG'' then Some ''retrieve_docs''
      else if classification state = Some ''Hybrid'' then Some ''hybrid_flow''
      else None)"

definition check_sql_execution :: "'v AgentState \<Rightarrow> string option" where
  "check_sql_execution state =
     (if errors state \<noteq> [] \<and> retry_count state < 2 then Some ''generate_sql''
      else Some ''synthesize'')"

definition route_after_retrieval :: "'v AgentState \<Rightarrow> string option" where
  "route_after_retrieval state =
     (if classification state = Some ''Hybrid'' then Some ''generate_sql''
      else Some ''synthesize'')"

subsection \<open>What a node returns\<close>

text \<open>
  A node returns a dictionary with the keys it writes. \<open>None\<close> in a field of an update
  says that the key is absent from that dictionary.
\<close>

record 'v Update =
  u_classification :: "string option"
  u_errors :: "string list option"
  u_retrieved_docs :: "string list option"
  u_sql_query :: "string option"
  u_sql_results :: "(string \<times> 'v) list list option"
  u_retry_count :: "int option"
  u_final_answer :: "string option"

definition no_update :: "'v Update" where
  "no_update = \<lparr>u_classification = None, u_errors = None, u_retrieved_docs = None,
                 u_sql_query = None, u_sql_results = None, u_retry_count = None,
                 u_final_answer = None\<rparr>"

text \<open>The keys of the state have no reducer: a written key replaces the old value.\<close>

definition apply_update :: "'v AgentState \<Rightarrow> 'v Update \<Rightarrow> 'v AgentState" where
  "apply_update s u =
     s\<lparr>classification := (case u_classification u of None \<Rightarrow> classification s | Some c \<Rightarrow> Some c),
       errors := (case u_errors u of None \<Rightarrow> errors s | Some e \<Rightarrow> e),
       retrieved_docs := (case u_retrieved_docs u of None \<Rightarrow> retrieved_docs s | Some d \<Rightarrow> Some d),
       sql_query := (case u_sql_query u of None \<Rightarrow> sql_query s | Some q \<Rightarrow> Some q),
       sql_results := (case u_sql_results u of None \<Rightarrow> sql_results s | Some r \<Rightarrow> Some r),
       retry_count := (case u_retry_count u of None \<Rightarrow> retry_count s | Some n \<Rightarrow> n),
       final_answer := (case u_final_answer u of None \<Rightarrow> final_answer s | Some a \<Rightarrow> Some a)\<rparr>"

definition both_write :: "'a option \<Rightarrow> 'b option \<Rightarrow> bool" where
  "both_write a b = (a \<noteq> None \<and> b \<noteq> None)"

definition either :: "'a option \<Rightarrow> 'a option \<Rightarrow> 'a option" where
  "either a b = (case a of None \<Rightarrow> b | Some x \<Rightarrow> Some x)"

text \<open>
  The updates of the nodes that run in one step are put together; a key written by two of
  them is refused by the runtime.
\<close>

definition merge_updates :: "'v Update \<Rightarrow> 'v Update \<Rightarrow> 'v Update option" where
  "merge_updates a b =
     (if both_write (u_classification a) (u_classification b)
         \<or> both_write (u_errors a) (u_errors b)
         \<or> both_write (u_retrieved_docs a) (u_retrieved_docs b)
         \<or> both_write (u_sql_query a) (u_sql_query b)
         \<or> both_write (u_sql_results a) (u_sql_results b)
         \<or> both_write (u_retry_count a) (u_retry_count b)
         \<or> both_write (u_final_answer a) (u_final_answer b)
      then None
      else Some \<lparr>u_classification = either (u_classification a) (u_classification b),
                 u_errors = either (u_errors a) (u_errors b),
                 u_retrieved_docs = either (u_retrieved_docs a) (u_retrieved_docs b),
                 u_sql_query = either (u_sql_query a) (u_sql_query b),
                 u_sql_results = either (u_sql_results a) (u_sql_results b),
                 u_retry_count = either (u_retry_count a) (u_retry_count b),
                 u_final_answer = either (u_final_answer a) (u_final_answer b)\<rparr>)"

subsection \<open>The collaborators\<close>

text \<open>
  What the nodes call and this repository does not define: the three language-model
  modules, the schema text, the store, the built retriever with the vectoriser, the
  similarity and the sort it uses, and the formatting of a score and of the result rows.
\<close>

record ('s, 'vec, 'v) env =
  router_module :: "string \<Rightarrow> string"
  sql_generator_module :: "string \<Rightarrow> string \<Rightarrow> string"
  synthesizer_module :: "string \<Rightarrow> string \<Rightarrow> string option \<Rightarrow> string option \<Rightarrow> string"
  schema :: string
  sqlite_store :: "string \<Rightarrow> string + 'v cursor"
  retriever :: "'vec LocalRetriever"
  vectorizer_transform :: "string \<Rightarrow> 'vec"
  cosine_similarity :: "'vec \<Rightarrow> 'vec \<Rightarrow> 's"
  np_argsort :: "'s list \<Rightarrow> nat list"
  str_of_score :: "'s \<Rightarrow> string"
  json_dumps :: "(string \<times> 'v) list list \<Rightarrow> string"

subsection \<open>The nodes\<close>

definition router_node :: "('s, 'vec, 'v) env \<Rightarrow> 'v AgentState \<Rightarrow> error + 'v Update" where
  "router_node env state =
     (let classification = router_module env (question state)
      in Inr (no_update\<lparr>u_classification := Some classification, u_errors := Some []\<rparr>))"

definition format_doc :: "('s \<Rightarrow> string) \<Rightarrow> 's search_result \<Rightarrow> string" where
  "format_doc str res =
     source (chunk res) @ ''::chunk_'' @ str_of_nat (chunk_id (chunk res)) @ [NL]
       @ content (chunk res) @ [NL] @ str (score res)"

definition retriever_node :: "('s, 'vec, 'v) env \<Rightarrow> 'v AgentState \<Rightarrow> error + 'v Update" where
  "retriever_node env state =
     (case search (np_argsort env) (vectorizer_transform env) (cosine_similarity env)
             (retriever env) (question state) 3 of
        Inl e \<Rightarrow> Inl e
      | Inr results \<Rightarrow>
          (let formatted_docs = map (format_doc (str_of_score env)) results
           in Inr (no_update\<lparr>u_retrieved_docs := Some formatted_docs\<rparr>)))"

text \<open>The question that \<^verbatim>\<open>sql_generator_node\<close> hands to the generator.\<close>

definition question_with_context :: "'v AgentState \<Rightarrow> string" where
  "question_with_context state =
     (if errors state \<noteq> []
      then (let error_context = join [NL] (errors state)
            in ''Previous attempt failed with error: '' @ error_context
                 @ ''. Please correct the query. Original question: '' @ question state)
      else question state)"

definition sql_generator_node :: "('s, 'vec, 'v) env \<Rightarrow> 'v AgentState \<Rightarrow> error + 'v Update" where
  "sql_generator_node env state =
     (let response = sql_generator_module env (question_with_context state) (schema env)
      in Inr (no_update\<lparr>u_sql_query := Some response, u_errors := Some []\<rparr>))"

text \<open>\<^verbatim>\<open>dict(pairs)\<close>: a later value for a key replaces the earlier one in its place.\<close>

definition py_dict :: "(string \<times> 'v) list \<Rightarrow> (string \<times> 'v) list" where
  "py_dict pairs = foldl (\<lambda>d (k, v). AList.update k v d) [] pairs"

text \<open>
  The success test of \<^verbatim>\<open>sql_executor_node\<close> is on the column names alone. The query of
  the state is \<^verbatim>\<open>None\<close> until a generation has run; the store's driver refuses that
  with a type error, which the tool does not catch.
\<close>

definition sql_executor_node :: "('s, 'vec, 'v) env \<Rightarrow> 'v AgentState \<Rightarrow> error + 'v Update" where
  "sql_executor_node env state =
     (case sql_query state of
        None \<Rightarrow> Inl TypeError
      | Some query \<Rightarrow>
          (case run_sqlite_query (sqlite_store env) query of
             (rows, Some column_names) \<Rightarrow>
               (case rows of
                  Rows rs \<Rightarrow>
                    (let results = map (\<lambda>row. py_dict (zip column_names row)) rs
                     in Inr (no_update\<lparr>u_sql_results := Some results\<rparr>))
                | Message m \<Rightarrow> Inl TypeError)
           | (rows, None) \<Rightarrow>
               (case rows of
                  Message m \<Rightarrow>
                    Inr (no_update\<lparr>u_errors := Some (errors state @ [m]),
                                   u_retry_count := Some (retry_count state + 1)\<rparr>)
                | Rows rs \<Rightarrow> Inl TypeError)))"

definition synthesizer_context :: "('s, 'vec, 'v) env \<Rightarrow> 'v AgentState \<Rightarrow> string" where
  "synthesizer_context env state =
     (case sql_results state of
        None \<Rightarrow> []
      | Some rs \<Rightarrow> if rs \<noteq> [] then ''SQL Results:'' @ [NL] @ json_dumps env rs @ [NL, NL] else [])
     @
     (case retrieved_docs state of
        None \<Rightarrow> []
      | Some ds \<Rightarrow> if ds \<noteq> [] then ''Retrieved Documents:'' @ [NL] @ join [NL, NL] ds else [])"

definition synthesizer_node :: "('s, 'vec, 'v) env \<Rightarrow> 'v AgentState \<Rightarrow> error + 'v Update" where
  "synthesizer_node env state =
     (let context = synthesizer_context env state;
          response = synthesizer_module env (question state) (strip context)
                       (sql_query state) (format_hint state)
      in Inr (no_update\<lparr>u_final_answer := Some response\<rparr>))"

subsection \<open>The graph\<close>

datatype node = Router | Retrieve_docs | Generate_sql | Execute_sql | Synthesize | END

definition node_fn ::
  "('s, 'vec, 'v) env \<Rightarrow> node \<Rightarrow> 'v AgentState \<Rightarrow> error + 'v Update" where
  "node_fn env n state =
     (case n of
        Router \<Rightarrow> router_node env state
      | Retrieve_docs \<Rightarrow> retriever_node env state
      | Generate_sql \<Rightarrow> sql_generator_node env state
      | Execute_sql \<Rightarrow> sql_executor_node env state
      | Synthesize \<Rightarrow> synthesizer_node env state
      | END \<Rightarrow> Inr no_update)"

text \<open>The calls of \<^verbatim>\<open>add_edge\<close>, in the order of the source.\<close>

definition static_edges :: "(node \<times> node) list" where
  "static_edges =
     [(Retrieve_docs, Synthesize),
      (Generate_sql, Execute_sql),
      (Synthesize, END)]"

text \<open>The calls of \<^verbatim>\<open>add_conditional_edges\<close>: the routing function and its path map.\<close>

definition conditional_edges ::
  "node \<Rightarrow> (('v AgentState \<Rightarrow> string option) \<times> (string \<times> node) list) list" where
  "conditional_edges n =
     (case n of
        Router \<Rightarrow>
          [(route_question,
            [(''generate_sql'', Generate_sql),
             (''retrieve_docs'', Retrieve_docs),
             (''hybrid_flow'', Retrieve_docs)])]
      | Retrieve_docs \<Rightarrow>
          [(route_after_retrieval,
            [(''generate_sql'', Generate_sql),
             (''synthesize'', Synthesize)])]
      | Execute_sql \<Rightarrow>
          [(check_sql_execution,
            [(''generate_sql'', Generate_sql),
             (''synthesize'', Synthesize)])]
      | _ \<Rightarrow> [])"

text \<open>
  The runtime looks the label returned by a routing function up in the path map. A label
  that is \<^verbatim>\<open>None\<close> or not a key of the map names no destination, and the run stops
  with an error.
\<close>

definition follow_branch :: "(string \<times> node) list \<Rightarrow> string option \<Rightarrow> error + node" where
  "follow_branch path_map label =
     (case label of
        None \<Rightarrow> Inl BranchError
      | Some l \<Rightarrow> (case map_of path_map l of None \<Rightarrow> Inl BranchError | Some n \<Rightarrow> Inr n))"

fun branch_targets ::
  "(('v AgentState \<Rightarrow> string option) \<times> (string \<times> node) list) list \<Rightarrow> 'v AgentState
   \<Rightarrow> error + node list" where
  "branch_targets [] state = Inr []"
| "branch_targets ((route, path_map) # bs) state =
     (case follow_branch path_map (route state) of
        Inl e \<Rightarrow> Inl e
      | Inr n \<Rightarrow> (case branch_targets bs state of Inl e \<Rightarrow> Inl e | Inr ns \<Rightarrow> Inr (n # ns)))"

text \<open>
  Every edge that leaves a node fires when the node has run: the targets of its static
  edges and the destination of each of its conditional edges are all scheduled for the
  next step.
\<close>

definition successors :: "node \<Rightarrow> 'v AgentState \<Rightarrow> error + node list" where
  "successors n state =
     (case branch_targets (conditional_edges n) state of
        Inl e \<Rightarrow> Inl e
      | Inr ns \<Rightarrow> Inr (map snd (filter (\<lambda>e. fst e = n) static_edges) @ ns))"

text \<open>
  One node of a step: it runs on the state of the start of the step, and its routing
  functions read that state with the node's own writes applied.
\<close>

definition run_node ::
  "('s, 'vec, 'v) env \<Rightarrow> node \<Rightarrow> 'v AgentState \<Rightarrow> error + ('v Update \<times> node list)" where
  "run_node env n state =
     (case node_fn env n state of
        Inl e \<Rightarrow> Inl e
      | Inr u \<Rightarrow> (case successors n (apply_update state u) of
                    Inl e \<Rightarrow> Inl e
                  | Inr ts \<Rightarrow> Inr (u, ts)))"

fun run_nodes ::
  "('s, 'vec, 'v) env \<Rightarrow> 'v AgentState \<Rightarrow> node list \<Rightarrow> error + ('v Update \<times> node list)" where
  "run_nodes env state [] = Inr (no_update, [])"
| "run_nodes env state (n # ns) =
     (case run_node env n state of
        Inl e \<Rightarrow> Inl e
      | Inr (u, ts) \<Rightarrow>
          (case run_nodes env state ns of
             Inl e \<Rightarrow> Inl e
           | Inr (us, tss) \<Rightarrow>
               (case merge_updates u us of
                  None \<Rightarrow> Inl InvalidUpdateError
                | Some m \<Rightarrow> Inr (m, ts @ tss))))"

text \<open>A configuration: the nodes scheduled for the next step, and the state.\<close>

type_synonym 'v config = "node list \<times> 'v AgentState"

definition superstep :: "('s, 'vec, 'v) env \<Rightarrow> 'v config \<Rightarrow> error + 'v config" where
  "superstep env c =
     (case run_nodes env (snd c) (fst c) of
        Inl e \<Rightarrow> Inl e
      | Inr (u, ts) \<Rightarrow> Inr (remdups (filter (\<lambda>n. n \<noteq> END) ts), apply_update (snd c) u))"

text \<open>
  The configurations that a run goes through. The collaborators may answer differently at
  every step, so the run takes one environment for each step; it ends when no node is
  scheduled, when a step fails, or when the environments run out.
\<close>

fun trace :: "('s, 'vec, 'v) env list \<Rightarrow> 'v config \<Rightarrow> 'v config list" where
  "trace [] c = [c]"
| "trace (env # envs) c =
     (if fst c = [] then [c]
      else (case superstep env c of Inl e \<Rightarrow> [c] | Inr c' \<Rightarrow> c # trace envs c'))"

text \<open>
  \<^verbatim>\<open>app.invoke\<close>: the steps from the entry point until no node is scheduled. The runtime
  stops a run that needs more steps than its limit. \<^verbatim>\<open>run_batch\<close> sets none, and the
  default depends on the version of the runtime; the model takes 25, the value that its
  documentation names. No run needs more than seven steps, so any larger limit gives the
  same runs.
\<close>

fun run :: "('s, 'vec, 'v) env list \<Rightarrow> 'v config \<Rightarrow> error + 'v AgentState" where
  "run envs ([], state) = Inr state"
| "run [] (n # ns, state) = Inl GraphRecursionError"
| "run (env # envs) (n # ns, state) =
     (case superstep env (n # ns, state) of Inl e \<Rightarrow> Inl e | Inr c' \<Rightarrow> run envs c')"

definition recursion_limit :: nat where
  "recursion_limit = 25"

definition app_invoke :: "('s, 'vec, 'v) env \<Rightarrow> 'v AgentState \<Rightarrow> error + 'v AgentState" where
  "app_invoke env initial_state = run (replicate recursion_limit env) ([Router], initial_state)"

section \<open>The batch runner (rag\_agent\_hybrid.py)\<close>

datatype json =
    JNull
  | JBool bool
  | JNumber int
  | JString string
  | JArray "json list"
  | JObject "(string \<times> json) list"

text \<open>A parsed line of the input file: a question, and possibly a format hint and an id.\<close>

record item =
  item_question :: string
  item_format_hint :: "string option"
  item_id :: "json option"

definition initial_state :: "item \<Rightarrow> 'v AgentState" where
  "initial_state it =
     \<lparr>question = item_question it,
      format_hint = item_format_hint it,
      classification = None,
      sql_query = None,
      sql_results = None,
      retrieved_docs = None,
      errors = [],
      retry_count = 0,
      final_answer = None\<rparr>"

definition error_record :: "item \<Rightarrow> nat \<Rightarrow> string option \<Rightarrow> json" where
  "error_record it i raw_output =
     JObject [(''id'', (case item_id it of
                          Some v \<Rightarrow> v
                        | None \<Rightarrow> JString (''error_'' @ str_of_nat (i + 1)))),
              (''error'', JString ''Failed to generate valid JSON response.''),
              (''raw_output'', (case raw_output of None \<Rightarrow> JNull | Some r \<Rightarrow> JString r))]"

text \<open>
  What one record writes, from the final state of its run. \<^verbatim>\<open>json.loads\<close> is a
  parameter; \<open>None\<close> is its \<^verbatim>\<open>JSONDecodeError\<close>.
\<close>

definition output_json :: "(string \<Rightarrow> json option) \<Rightarrow> item \<Rightarrow> nat \<Rightarrow> 'v AgentState \<Rightarrow> json" where
  "output_json json_loads it i final_state =
     (let raw_output = final_answer final_state
      in case raw_output of
           None \<Rightarrow> error_record it i raw_output
         | Some raw \<Rightarrow>
             if raw \<noteq> []
             then (case json_loads raw of
                     None \<Rightarrow> error_record it i raw_output
                   | Some j \<Rightarrow> j)
             else error_record it i raw_output)"

text \<open>
  The loop of \<^verbatim>\<open>run_batch\<close>: the lines written so far, and the error that ended the
  loop, if one did. \<^verbatim>\<open>app.invoke\<close> is called outside the \<^verbatim>\<open>try\<close> block.
\<close>

fun batch_loop ::
  "('s, 'vec, 'v) env \<Rightarrow> (string \<Rightarrow> json option) \<Rightarrow> json list \<Rightarrow> (nat \<times> item) list
   \<Rightarrow> json list \<times> error option" where
  "batch_loop env json_loads out [] = (out, None)"
| "batch_loop env json_loads out ((i, it) # rest) =
     (case app_invoke env (initial_state it) of
        Inl e \<Rightarrow> (out, Some e)
      | Inr final_state \<Rightarrow>
          batch_loop env json_loads (out @ [output_json json_loads it i final_state]) rest)"

definition run_batch ::
  "('s, 'vec, 'v) env \<Rightarrow> (string \<Rightarrow> json option) \<Rightarrow> item list \<Rightarrow> json list \<times> error option" where
  "run_batch env json_loads questions = batch_loop env json_loads [] (enumerate 0 questions)"

text \<open>The line that a record writes when its run returns.\<close>

definition written_line ::
  "('s, 'vec, 'v) env \<Rightarrow> (string \<Rightarrow> json option) \<Rightarrow> nat \<times> item \<Rightarrow> json" where
  "written_line env json_loads x =
     output_json json_loads (snd x) (fst x) (projr (app_invoke env (initial_state (snd x))))"

section \<open>The shape of a run\<close>

text \<open>
  The configurations that a run from the entry point goes through: which nodes can be
  scheduled together, and what the error log and the retry counter can be then.
\<close>

definition wf_config :: "'v config \<Rightarrow> bool" where
  "wf_config c =
     (let ns = fst c; s = snd c in
        if ns = [Router] \<or> ns = [Retrieve_docs] \<or> ns = [Synthesize, Generate_sql]
        then errors s = [] \<and> retry_count s = 0
        else if ns = [Generate_sql]
        then length (errors s) \<le> 1 \<and> int (length (errors s)) \<le> retry_count s \<and> retry_count s \<le> 1
        else if ns = [Execute_sql]
        then errors s = [] \<and> 0 \<le> retry_count s \<and> retry_count s \<le> 1
        else if ns = [Synthesize] \<or> ns = []
        then length (errors s) \<le> 1 \<and> int (length (errors s)) \<le> retry_count s \<and> retry_count s \<le> 2
        else False)"

definition wf_next :: "error + 'v config \<Rightarrow> bool" where
  "wf_next r = (case r of Inl e \<Rightarrow> True | Inr c \<Rightarrow> wf_config c)"

text \<open>
  An upper bound of the steps that a configuration of a run still needs, and what a step
  does to it: the step fails with an error other than the step limit, or it leads to a
  configuration that needs fewer steps.
\<close>

definition steps_left :: "'v config \<Rightarrow> nat" where
  "steps_left c =
     (let ns = fst c; s = snd c in
        if ns = [Router] then 7
        else if ns = [Retrieve_docs] then 6
        else if ns = [Synthesize, Generate_sql] then 5
        else if ns = [Generate_sql] then (if retry_count s \<le> 0 then 5 else 3)
        else if ns = [Execute_sql] then (if retry_count s \<le> 0 then 4 else 2)
        else if ns = [Synthesize] then 1
        else 0)"

definition closer :: "'v config \<Rightarrow> error + 'v config \<Rightarrow> bool" where
  "closer c r =
     (case r of Inl e \<Rightarrow> e \<noteq> GraphRecursionError | Inr c' \<Rightarrow> steps_left c' < steps_left c)"

text \<open>
  An upper bound of the executions of a query that a configuration of a run still has
  before it, the one it is about to make counted, and what a step does to it.
\<close>

definition executions_left :: "'v config \<Rightarrow> nat" where
  "executions_left c =
     (let ns = fst c; s = snd c in
        if ns = [Synthesize] \<or> ns = [] then 0
        else if ns = [Generate_sql] \<or> ns = [Execute_sql]
        then (if retry_count s \<le> 0 then 2 else 1)
        else 2)"

definition executes :: "'v config \<Rightarrow> nat" where
  "executes c = (if Execute_sql \<in> set (fst c) then 1 else 0)"

definition spends :: "'v config \<Rightarrow> error + 'v config \<Rightarrow> bool" where
  "spends c r =
     (case r of
        Inl e \<Rightarrow> True
      | Inr c' \<Rightarrow> executes c + executions_left c' \<le> executions_left c)"

section \<open>Example collaborators\<close>

text \<open>
  A store that knows one query and one statement and rejects everything else, and an
  environment whose router always answers \<open>label\<close> and whose generator always writes
  \<open>sql\<close>. Its retriever has no index.
\<close>

definition example_store :: "string \<Rightarrow> string + int cursor" where
  "example_store q =
     (if q = ''SELECT 1'' then Inr (Cursor [[1]] (Some [''1'']))
      else if q = ''DELETE FROM Orders'' then Inr (Cursor [] None)
      else Inl ''syntax error'')"

definition scripted_env :: "string \<Rightarrow> string \<Rightarrow> (int, nat, int) env" where
  "scripted_env label sql =
     \<lparr>router_module = (\<lambda>q. label),
      sql_generator_module = (\<lambda>q s. sql),
      synthesizer_module = (\<lambda>q c sq fh. ''{}''),
      schema = [],
      sqlite_store = example_store,
      retriever = new_retriever,
      vectorizer_transform = (\<lambda>q. 0),
      cosine_similarity = (\<lambda>a b. 0),
      np_argsort = stable_argsort,
      str_of_score = (\<lambda>s. ''0''),
      json_dumps = (\<lambda>rs. ''[]'')\<rparr>"

definition example_item :: item where
  "example_item =
     \<lparr>item_question = ''How many orders?'', item_format_hint = None, item_id = None\<rparr>"

definition example_state :: "int AgentState" where
  "example_state = initial_state example_item"

text \<open>
  Two documents, the index built from them with a vectoriser whose rows are the positions
  of the chunks, and a similarity that gives 1 to the two chunks about mammals and 0 to the
  third.
\<close>

definition example_docs :: "(string \<times> string) list" where
  "example_docs =
     [(''a.md'', ''Cats are mammals.'' @ [NL, NL] @ ''Dogs are mammals too.''),
      (''b.md'', ''Paris is a city.'')]"

definition example_index :: "error + nat LocalRetriever" where
  "example_index = index_directory (\<lambda>texts. Inr [0..<length texts]) new_retriever example_docs"

definition example_retriever :: "nat LocalRetriever" where
  "example_retriever =
     \<lparr>chunks =
        [\<lparr>content = ''Cats are mammals.'', source = ''a.md'', chunk_id = 0\<rparr>,
         \<lparr>content = ''Dogs are mammals too.'', source = ''a.md'', chunk_id = 1\<rparr>,
         \<lparr>content = ''Paris is a city.'', source = ''b.md'', chunk_id = 0\<rparr>],
      tfidf_matrix = Some [0, 1, 2]\<rparr>"

definition example_cosine :: "nat \<Rightarrow> nat \<Rightarrow> int" where
  "example_cosine query_vector row = [1, 1, 0] ! row"

text \<open>
  A router that answers \<open>Weather\<close> to one question and \<open>RAG\<close> to every other one, and a
  parser that knows the empty object only.
\<close>

definition weather_env :: "(int, nat, int) env" where
  "weather_env =
     (scripted_env ''RAG'' ''SELECT 1'')
       \<lparr>router_module := (\<lambda>q. if q = ''What is the weather?'' then ''Weather'' else ''RAG'')\<rparr>"

definition weather_item :: item where
  "weather_item =
     \<lparr>item_question = ''What is the weather?'', item_format_hint = None, item_id = None\<rparr>"

definition example_json_loads :: "string \<Rightarrow> json option" where
  "example_json_loads s = (if s = ''{}'' then Some (JObject []) else None)"

section \<open>One step of the graph, node by node\<close>

lemmas node_defs = router_node_def retriever_node_def sql_generator_node_def
  sql_executor_node_def synthesizer_node_def node_fn_def

lemmas graph_defs = successors_def conditional_edges_def static_edges_def follow_branch_def
  route_question_def route_after_retrieval_def check_sql_execution_def

lemmas update_defs = apply_update_def no_update_def merge_updates_def both_write_def either_def

lemma superstep_Router:
  "superstep env ([Router], s) =
     (let l = router_module env (question s);
          s' = s\<lparr>classification := Some l, errors := []\<rparr>
      in if l = ''SQL'' then Inr ([Generate_sql], s')
         else if l = ''RAG'' \<or> l = ''Hybrid'' then Inr ([Retrieve_docs], s')
         else Inl BranchError)"
  by (simp add: superstep_def run_node_def node_defs graph_defs update_defs Let_def)

lemma superstep_Generate_sql:
  "superstep env ([Generate_sql], s) =
     Inr ([Execute_sql],
          s\<lparr>errors := [],
            sql_query := Some (sql_generator_module env (question_with_context s) (schema env))\<rparr>)"
  by (simp add: superstep_def run_node_def node_defs graph_defs update_defs Let_def)

lemma superstep_Synthesize:
  "superstep env ([Synthesize], s) =
     Inr ([], s\<lparr>final_answer :=
                  Some (synthesizer_module env (question s) (strip (synthesizer_context env s))
                          (sql_query s) (format_hint s))\<rparr>)"
  by (simp add: superstep_def run_node_def node_defs graph_defs update_defs Let_def)

lemma superstep_Synthesize_Generate_sql:
  "superstep env ([Synthesize, Generate_sql], s) =
     Inr ([Execute_sql],
          s\<lparr>errors := [],
            sql_query := Some (sql_generator_module env (question_with_context s) (schema env)),
            final_answer :=
                  Some (synthesizer_module env (question s) (strip (synthesizer_context env s))
                          (sql_query s) (format_hint s))\<rparr>)"
  by (simp add: superstep_def run_node_def node_defs graph_defs update_defs Let_def)

lemma superstep_Retrieve_docs:
  "superstep env ([Retrieve_docs], s) =
     (case search (np_argsort env) (vectorizer_transform env) (cosine_similarity env)
             (retriever env) (question s) 3 of
        Inl e \<Rightarrow> Inl e
      | Inr results \<Rightarrow>
          Inr (if classification s = Some ''Hybrid'' then [Synthesize, Generate_sql] else [Synthesize],
               s\<lparr>retrieved_docs := Some (map (format_doc (str_of_score env)) results)\<rparr>))"
  by (simp add: superstep_def run_node_def node_defs graph_defs update_defs Let_def split: sum.splits)

lemma superstep_Execute_sql:
  "superstep env ([Execute_sql], s) =
     (case sql_query s of
        None \<Rightarrow> Inl TypeError
      | Some q \<Rightarrow>
          (case sqlite_store env q of
             Inl m \<Rightarrow>
               Inr (if retry_count s + 1 < 2 then [Generate_sql] else [Synthesize],
                    s\<lparr>errors := errors s @ [m], retry_count := retry_count s + 1\<rparr>)
           | Inr cur \<Rightarrow>
               Inr (if errors s \<noteq> [] \<and> retry_count s < 2 then [Generate_sql] else [Synthesize],
                    s\<lparr>sql_results :=
                        Some (map (\<lambda>row. py_dict (zip (case description cur of None \<Rightarrow> [] | Some d \<Rightarrow> d) row))
                                (fetchall cur))\<rparr>)))"
  apply (cases "sql_query s")
   apply (simp add: superstep_def run_node_def node_defs)
  subgoal for q
    apply (cases "sqlite_store env q")
     apply (simp add: superstep_def run_node_def node_defs graph_defs update_defs run_sqlite_query_def)
    apply (simp add: superstep_def run_node_def node_defs graph_defs update_defs run_sqlite_query_def Let_def split: option.splits)
    done
  done

section \<open>The invariant of a run\<close>

lemma wf_next_simps [simp]: "wf_next (Inl e)" "wf_next (Inr c) = wf_config c"
  by (simp_all add: wf_next_def)

lemma wf_step_Router:
  "wf_config ([Router], s) \<Longrightarrow> wf_next (superstep env ([Router], s))"
  by (simp add: superstep_Router wf_config_def Let_def)

lemma wf_step_Retrieve:
  "wf_config ([Retrieve_docs], s) \<Longrightarrow> wf_next (superstep env ([Retrieve_docs], s))"
  by (simp add: superstep_Retrieve_docs wf_config_def Let_def split: sum.splits)

lemma wf_step_Synthesize_Generate:
  "wf_config ([Synthesize, Generate_sql], s) \<Longrightarrow> wf_next (superstep env ([Synthesize, Generate_sql], s))"
  by (simp add: superstep_Synthesize_Generate_sql wf_config_def Let_def)

lemma wf_step_Generate:
  "wf_config ([Generate_sql], s) \<Longrightarrow> wf_next (superstep env ([Generate_sql], s))"
  by (simp add: superstep_Generate_sql wf_config_def Let_def)

lemma wf_step_Execute:
  "wf_config ([Execute_sql], s) \<Longrightarrow> wf_next (superstep env ([Execute_sql], s))"
  by (simp add: superstep_Execute_sql wf_config_def Let_def split: sum.splits option.splits)

lemma wf_step_Synthesize:
  "wf_config ([Synthesize], s) \<Longrightarrow> wf_next (superstep env ([Synthesize], s))"
  by (simp add: superstep_Synthesize wf_config_def Let_def)

lemma superstep_Nil: "superstep env ([], s) = Inr ([], s)"
  by (simp add: superstep_def apply_update_def no_update_def)

lemma wf_nodes:
  "wf_config (ns, s) \<Longrightarrow>
     ns = [Router] \<or> ns = [Retrieve_docs] \<or> ns = [Synthesize, Generate_sql] \<or> ns = [Generate_sql]
       \<or> ns = [Execute_sql] \<or> ns = [Synthesize] \<or> ns = []"
  unfolding wf_config_def Let_def fst_conv snd_conv
  by (auto split: if_splits)

lemma wf_step:
  assumes "wf_config c" and "superstep env c = Inr c'"
  shows "wf_config c'"
proof -
  obtain ns s where c: "c = (ns, s)" by (cases c)
  have wf: "wf_config (ns, s)" using assms(1) c by simp
  from wf_nodes [OF wf] have "wf_next (superstep env (ns, s))"
  proof (elim disjE)
    assume "ns = [Router]"
    with wf show ?thesis by (simp add: wf_step_Router)
  next
    assume "ns = [Retrieve_docs]"
    with wf show ?thesis by (simp add: wf_step_Retrieve)
  next
    assume "ns = [Synthesize, Generate_sql]"
    with wf show ?thesis by (simp add: wf_step_Synthesize_Generate)
  next
    assume "ns = [Generate_sql]"
    with wf show ?thesis by (simp add: wf_step_Generate)
  next
    assume "ns = [Execute_sql]"
    with wf show ?thesis by (simp add: wf_step_Execute)
  next
    assume "ns = [Synthesize]"
    with wf show ?thesis by (simp add: wf_step_Synthesize)
  next
    assume "ns = []"
    with wf show ?thesis by (simp add: superstep_Nil)
  qed
  with assms(2) c show ?thesis by simp
qed

lemma wf_trace:
  "wf_config c \<Longrightarrow> c' \<in> set (trace envs c) \<Longrightarrow> wf_config c'"
proof (induction envs arbitrary: c)
  case Nil
  then show ?case by simp
next
  case (Cons env envs)
  show ?case
  proof (cases "fst c = []")
    case True
    with Cons.prems show ?thesis by simp
  next
    case False
    show ?thesis
    proof (cases "superstep env c")
      case (Inl e)
      with False Cons.prems show ?thesis by simp
    next
      case (Inr d)
      with False Cons.prems have "c' = c \<or> c' \<in> set (trace envs d)" by simp
      moreover have "wf_config d" using Cons.prems(1) Inr by (rule wf_step)
      ultimately show ?thesis using Cons.IH Cons.prems(1) by blast
    qed
  qed
qed

lemma wf_initial: "wf_config ([Router], initial_state it)"
  by (simp add: wf_config_def initial_state_def)

lemma trace_invariant:
  "c \<in> set (trace envs ([Router], initial_state it)) \<Longrightarrow>
     length (errors (snd c)) \<le> 1 \<and> int (length (errors (snd c))) \<le> retry_count (snd c)
       \<and> retry_count (snd c) \<le> 2"
  using wf_trace [OF wf_initial, of c envs it]
  by (cases c) (auto simp: wf_config_def Let_def split: if_splits)

lemma app_invoke_unfold:
  "app_invoke env s =
     (case superstep env ([Router], s) of Inl e \<Rightarrow> Inl e | Inr c' \<Rightarrow> run (replicate 24 env) c')"
proof -
  have "replicate recursion_limit env = env # replicate 24 env"
    unfolding recursion_limit_def by (simp add: eval_nat_numeral)
  then show ?thesis
    by (simp add: app_invoke_def)
qed

lemmas example_defs = scripted_env_def example_store_def example_state_def example_item_def
  initial_state_def

lemmas superstep_simps = superstep_Router superstep_Generate_sql superstep_Synthesize
  superstep_Synthesize_Generate_sql superstep_Retrieve_docs superstep_Execute_sql

lemma spends_simps [simp]:
  "spends c (Inl e)"
  "spends c (Inr c') = (executes c + executions_left c' \<le> executions_left c)"
  by (simp_all add: spends_def)

lemma spends_Router:
  "wf_config ([Router], s) \<Longrightarrow> spends ([Router], s) (superstep env ([Router], s))"
  by (simp add: superstep_Router wf_config_def executions_left_def executes_def Let_def)

lemma spends_Retrieve:
  "wf_config ([Retrieve_docs], s) \<Longrightarrow> spends ([Retrieve_docs], s) (superstep env ([Retrieve_docs], s))"
  by (simp add: superstep_Retrieve_docs wf_config_def executions_left_def executes_def Let_def
      split: sum.splits)

lemma spends_Synthesize_Generate:
  "wf_config ([Synthesize, Generate_sql], s) \<Longrightarrow>
     spends ([Synthesize, Generate_sql], s) (superstep env ([Synthesize, Generate_sql], s))"
  by (simp add: superstep_Synthesize_Generate_sql wf_config_def executions_left_def executes_def Let_def)

lemma spends_Generate:
  "wf_config ([Generate_sql], s) \<Longrightarrow> spends ([Generate_sql], s) (superstep env ([Generate_sql], s))"
  by (simp add: superstep_Generate_sql wf_config_def executions_left_def executes_def Let_def)

lemma spends_Execute:
  "wf_config ([Execute_sql], s) \<Longrightarrow> spends ([Execute_sql], s) (superstep env ([Execute_sql], s))"
  by (simp add: superstep_Execute_sql wf_config_def executions_left_def executes_def Let_def
      split: sum.splits option.splits)

lemma spends_Synthesize:
  "wf_config ([Synthesize], s) \<Longrightarrow> spends ([Synthesize], s) (superstep env ([Synthesize], s))"
  by (simp add: superstep_Synthesize wf_config_def executions_left_def executes_def Let_def)

lemma spends_step:
  assumes "wf_config c"
  shows "spends c (superstep env c)"
proof -
  obtain ns s where c: "c = (ns, s)" by (cases c)
  have wf: "wf_config (ns, s)" using assms c by simp
  from wf_nodes [OF wf] show ?thesis unfolding c
  proof (elim disjE)
    assume "ns = [Router]"
    with wf show "spends (ns, s) (superstep env (ns, s))" by (simp add: spends_Router)
  next
    assume "ns = [Retrieve_docs]"
    with wf show "spends (ns, s) (superstep env (ns, s))" by (simp add: spends_Retrieve)
  next
    assume "ns = [Synthesize, Generate_sql]"
    with wf show "spends (ns, s) (superstep env (ns, s))" by (simp add: spends_Synthesize_Generate)
  next
    assume "ns = [Generate_sql]"
    with wf show "spends (ns, s) (superstep env (ns, s))" by (simp add: spends_Generate)
  next
    assume "ns = [Execute_sql]"
    with wf show "spends (ns, s) (superstep env (ns, s))" by (simp add: spends_Execute)
  next
    assume "ns = [Synthesize]"
    with wf show "spends (ns, s) (superstep env (ns, s))" by (simp add: spends_Synthesize)
  next
    assume "ns = []"
    then show "spends (ns, s) (superstep env (ns, s))"
      by (simp add: superstep_Nil executes_def)
  qed
qed

lemma executes_le: "wf_config c \<Longrightarrow> executes c \<le> executions_left c"
  by (cases c) (auto simp: executes_def executions_left_def wf_config_def Let_def split: if_splits)

lemma executions_filter:
  "length (filter (\<lambda>c. Execute_sql \<in> set (fst c)) (c # cs))
     = executes c + length (filter (\<lambda>c. Execute_sql \<in> set (fst c)) cs)"
  by (simp add: executes_def)

lemma trace_executions:
  "wf_config c \<Longrightarrow>
     length (filter (\<lambda>c. Execute_sql \<in> set (fst c)) (trace envs c)) \<le> executions_left c"
proof (induction envs arbitrary: c)
  case Nil
  show ?case
    using executes_le [OF Nil] by (auto simp: executes_def split: if_splits)
next
  case (Cons env envs)
  have one: "length (filter (\<lambda>c. Execute_sql \<in> set (fst c)) [c]) \<le> executions_left c"
    using executes_le [OF Cons.prems] by (auto simp: executes_def split: if_splits)
  show ?case
  proof (cases "fst c = []")
    case True
    with one show ?thesis by simp
  next
    case False
    show ?thesis
    proof (cases "superstep env c")
      case (Inl e)
      with False one show ?thesis by simp
    next
      case (Inr c')
      have "wf_config c'" using Cons.prems Inr by (rule wf_step)
      then have "length (filter (\<lambda>c. Execute_sql \<in> set (fst c)) (trace envs c')) \<le> executions_left c'"
        by (rule Cons.IH)
      moreover from spends_step [OF Cons.prems, of env] Inr
      have "executes c + executions_left c' \<le> executions_left c" by simp
      moreover have "trace (env # envs) c = c # trace envs c'"
        using False Inr by simp
      ultimately show ?thesis
        by (simp only: executions_filter)
    qed
  qed
qed

lemma trace_executions_initial:
  "length (filter (\<lambda>c. Execute_sql \<in> set (fst c)) (trace envs ([Router], initial_state it))) \<le> 2"
  using trace_executions [OF wf_initial, of envs it]
  by (simp add: executions_left_def)

section \<open>The retry loop\<close>

text \<open>
  Claim C1, as the code has it. In every run from the entry point, with any answers of the
  collaborators, the retry counter never exceeds 2. A failed execution adds 1 to the counter
  and appends the store's message to the error log, and the routing function reads the
  counter after that addition: the next step is the generation when the new counter is
  below 2, that is when the counter was below 1 before the execution, and the synthesis
  otherwise. A run schedules the execution of a query at most twice.
\<close>

theorem retry_counter_bounded:
  "(\<forall>c \<in> set (trace envs ([Router], initial_state it)). retry_count (snd c) \<le> 2)
   \<and> (sql_query s = Some q \<and> sqlite_store env q = Inl m \<longrightarrow>
        superstep env ([Execute_sql], s) =
          Inr ([if retry_count s + 1 < 2 then Generate_sql else Synthesize],
               s\<lparr>errors := errors s @ [m], retry_count := retry_count s + 1\<rparr>))
   \<and> length (filter (\<lambda>c. Execute_sql \<in> set (fst c))
               (trace envs ([Router], initial_state it))) \<le> 2"
proof -
  have 1: "\<forall>c \<in> set (trace envs ([Router], initial_state it)). retry_count (snd c) \<le> 2"
    using trace_invariant [of _ envs it] by blast
  have 2: "sql_query s = Some q \<and> sqlite_store env q = Inl m \<longrightarrow>
        superstep env ([Execute_sql], s) =
          Inr ([if retry_count s + 1 < 2 then Generate_sql else Synthesize],
               s\<lparr>errors := errors s @ [m], retry_count := retry_count s + 1\<rparr>)"
    by (auto simp: superstep_Execute_sql)
  show ?thesis
    by (intro conjI) (rule 1, rule 2, rule trace_executions_initial)
qed

theorem retry_counter_bounded_witness:
  "(let env = scripted_env ''SQL'' ''SELEKT 1'';
        s = example_state\<lparr>sql_query := Some ''SELEKT 1''\<rparr>;
        c = ([Synthesize],
             s\<lparr>classification := Some ''SQL'', errors := [''syntax error''], retry_count := 2\<rparr>)
    in c \<in> set (trace (replicate 25 env) ([Router], initial_state example_item))
       \<and> retry_count (snd c) \<le> 2
       \<and> length (filter (\<lambda>c. Execute_sql \<in> set (fst c))
                   (trace (replicate 25 env) ([Router], initial_state example_item))) = 2
       \<and> sql_query s = Some ''SELEKT 1'' \<and> sqlite_store env ''SELEKT 1'' = Inl ''syntax error''
       \<and> superstep env ([Execute_sql], s) =
           Inr ([Generate_sql], s\<lparr>errors := [''syntax error''], retry_count := 1\<rparr>))"
  using retry_counter_bounded [of "replicate 25 (scripted_env ''SQL'' ''SELEKT 1'')" example_item
      "example_state\<lparr>sql_query := Some ''SELEKT 1''\<rparr>" "''SELEKT 1''"
      "scripted_env ''SQL'' ''SELEKT 1''" "''syntax error''"]
  by (simp add: Let_def eval_nat_numeral superstep_simps example_defs question_with_context_def)

text \<open>
  With the counter at 1, which is below 2, a failed execution leads to the synthesis and
  not to another generation.
\<close>

theorem retry_from_one_goes_to_synthesize:
  "(let env = scripted_env ''SQL'' ''SELEKT 1'';
        s = example_state\<lparr>sql_query := Some ''SELEKT 1'', retry_count := 1\<rparr>
    in retry_count s < 2
       \<and> run_sqlite_query (sqlite_store env) ''SELEKT 1'' = (Message ''syntax error'', None)
       \<and> superstep env ([Execute_sql], s) =
           Inr ([Synthesize], s\<lparr>errors := [''syntax error''], retry_count := 2\<rparr>))"
  by (simp add: Let_def superstep_Execute_sql example_defs run_sqlite_query_def)

section \<open>The hybrid path\<close>

text \<open>
  Claim C2, at a question classified Hybrid. The graph has two kinds of edges out of the
  retrieval: the static edge to the synthesis, and the conditional edge whose routing
  function answers \<open>generate_sql\<close>. Both fire, so the step after the retrieval runs the
  synthesis together with the generation, and the synthesis runs a second time after the
  execution.
\<close>

theorem hybrid_retrieval_also_schedules_synthesize:
  "(let env = scripted_env ''Hybrid'' ''SELECT 1'';
        s = example_state\<lparr>classification := Some ''Hybrid''\<rparr>
    in route_after_retrieval s = Some ''generate_sql''
       \<and> successors Retrieve_docs s = Inr [Synthesize, Generate_sql]
       \<and> map fst (trace (replicate 25 env) ([Router], initial_state example_item))
           = [[Router], [Retrieve_docs], [Synthesize, Generate_sql], [Execute_sql], [Synthesize], []])"
  by (simp add: Let_def eval_nat_numeral graph_defs superstep_simps example_defs
      search_def new_retriever_def)

section \<open>The question handed to the generator\<close>

text \<open>
  Claim C4, as the code has it. With an empty error log the generator gets the question
  unchanged; otherwise it gets the text \<open>Previous attempt failed with error: E. Please
  correct the query. Original question: Q\<close>, where \<open>E\<close> is the log joined by line breaks and
  \<open>Q\<close> the question, with nothing after the question. The generation step always leaves
  the log empty, and in every run the log holds at most one message when a generation
  starts, so the text carries the message of the last failed execution only.
\<close>

theorem generator_question:
  "question_with_context state =
     (if errors state = [] then question state
      else ''Previous attempt failed with error: '' @ join [NL] (errors state)
             @ ''. Please correct the query. Original question: '' @ question state)
   \<and> superstep env ([Generate_sql], state) =
       Inr ([Execute_sql],
            state\<lparr>errors := [],
                  sql_query := Some (sql_generator_module env (question_with_context state) (schema env))\<rparr>)
   \<and> (\<forall>c \<in> set (trace envs ([Router], initial_state it)).
         errors (snd c) = []
         \<or> (\<exists>m. errors (snd c) = [m]
                \<and> question_with_context (snd c) =
                    ''Previous attempt failed with error: '' @ m
                      @ ''. Please correct the query. Original question: '' @ question (snd c)))"
proof -
  have "errors (snd c) = []
         \<or> (\<exists>m. errors (snd c) = [m]
                \<and> question_with_context (snd c) =
                    ''Previous attempt failed with error: '' @ m
                      @ ''. Please correct the query. Original question: '' @ question (snd c))"
    if "c \<in> set (trace envs ([Router], initial_state it))" for c
  proof (cases "errors (snd c)")
    case Nil
    then show ?thesis by simp
  next
    case (Cons m ms)
    moreover from trace_invariant [OF that] have "length (errors (snd c)) \<le> 1" by simp
    ultimately have "errors (snd c) = [m]" by simp
    then show ?thesis by (simp add: question_with_context_def)
  qed
  then show ?thesis
    by (simp add: question_with_context_def superstep_Generate_sql)
qed

theorem generator_question_witness:
  "(let env = scripted_env ''SQL'' ''SELEKT 1'';
        s = example_state\<lparr>classification := Some ''SQL'', sql_query := Some ''SELEKT 1'',
                           errors := [''syntax error''], retry_count := 1\<rparr>
    in ([Generate_sql], s) \<in> set (trace (replicate 25 env) ([Router], initial_state example_item))
       \<and> question_with_context s =
           ''Previous attempt failed with error: syntax error. Please correct the query. Original question: How many orders?''
       \<and> superstep env ([Generate_sql], s) = Inr ([Execute_sql], s\<lparr>errors := []\<rparr>))"
  using generator_question [of "example_state\<lparr>classification := Some ''SQL'', sql_query := Some ''SELEKT 1'',
                           errors := [''syntax error''], retry_count := 1\<rparr>"
      "scripted_env ''SQL'' ''SELEKT 1''" "replicate 25 (scripted_env ''SQL'' ''SELEKT 1'')" example_item]
  by (simp add: Let_def eval_nat_numeral superstep_simps example_defs question_with_context_def)

text \<open>The text that the generator gets does not end with a full stop after the question.\<close>

theorem generator_question_has_no_final_period:
  "(let s = example_state\<lparr>errors := [''syntax error'']\<rparr>
    in question_with_context s =
         ''Previous attempt failed with error: syntax error. Please correct the query. Original question: How many orders?''
       \<and> question_with_context s \<noteq>
         ''Previous attempt failed with error: syntax error. Please correct the query. Original question: How many orders?.'')"
  by (simp add: Let_def question_with_context_def example_defs)

section \<open>The result of a query\<close>

text \<open>
  Claim C5. For every query, \<open>run_sqlite_query\<close> returns either the rows with the list of
  the column names, or the store's error message, unchanged, with \<open>None\<close> in place of the
  column names; the column names are \<open>None\<close> exactly when the store raised. A statement
  without column metadata and without rows gives no rows and the empty list of column
  names. The executor node, which tests the column names alone, writes the result rows and
  nothing else on success, and the extended error log and the counter and nothing else on
  failure.
\<close>

theorem run_sqlite_query_result:
  "(case store query of
      Inl e \<Rightarrow> run_sqlite_query store query = (Message e, None)
    | Inr cur \<Rightarrow>
        run_sqlite_query store query
          = (Rows (fetchall cur), Some (case description cur of None \<Rightarrow> [] | Some d \<Rightarrow> d)))
   \<and> (snd (run_sqlite_query store query) = None) = (\<exists>e. store query = Inl e)
   \<and> (\<forall>cur. store query = Inr cur \<and> description cur = None \<and> fetchall cur = [] \<longrightarrow>
         run_sqlite_query store query = (Rows [], Some []))
   \<and> (sql_query state = Some query \<and> sqlite_store env = store \<longrightarrow>
        (case store query of
           Inl e \<Rightarrow>
             sql_executor_node env state =
               Inr (no_update\<lparr>u_errors := Some (errors state @ [e]),
                              u_retry_count := Some (retry_count state + 1)\<rparr>)
         | Inr cur \<Rightarrow>
             sql_executor_node env state =
               Inr (no_update\<lparr>u_sql_results :=
                     Some (map (\<lambda>row. py_dict (zip (case description cur of None \<Rightarrow> [] | Some d \<Rightarrow> d) row))
                             (fetchall cur))\<rparr>)))"
  by (auto simp: run_sqlite_query_def sql_executor_node_def Let_def split: sum.splits option.splits)

theorem run_sqlite_query_result_witness:
  "(let env = scripted_env ''SQL'' ''DELETE FROM Orders'';
        s = example_state\<lparr>sql_query := Some ''DELETE FROM Orders''\<rparr>
    in example_store ''DELETE FROM Orders'' = Inr (Cursor [] None)
       \<and> description (Cursor [] None :: int cursor) = None
       \<and> fetchall (Cursor [] None :: int cursor) = []
       \<and> run_sqlite_query example_store ''DELETE FROM Orders'' = (Rows [], Some [])
       \<and> sql_query s = Some ''DELETE FROM Orders'' \<and> sqlite_store env = example_store
       \<and> sql_executor_node env s = Inr (no_update\<lparr>u_sql_results := Some []\<rparr>))"
  using run_sqlite_query_result [of example_store "''DELETE FROM Orders''"
      "example_state\<lparr>sql_query := Some ''DELETE FROM Orders''\<rparr>"
      "scripted_env ''SQL'' ''DELETE FROM Orders''"]
  by (simp add: Let_def example_defs)

section \<open>The error log\<close>

text \<open>
  Claim C9. In every configuration of a run from the entry point, with any answers of the
  collaborators, the error log holds at most one message, and no more messages than the
  retry counter counts. The router and the generator write the empty log, a failed
  execution writes the log with the store's message appended, and a successful one does not
  write the log.
\<close>

theorem error_log_at_most_one:
  "(\<forall>c \<in> set (trace envs ([Router], initial_state it)).
       length (errors (snd c)) \<le> 1 \<and> int (length (errors (snd c))) \<le> retry_count (snd c))
   \<and> (\<forall>u. router_node env s = Inr u \<longrightarrow> u_errors u = Some [])
   \<and> (\<forall>u. sql_generator_node env s = Inr u \<longrightarrow> u_errors u = Some [])
   \<and> (\<forall>q m. sql_query s = Some q \<and> sqlite_store env q = Inl m \<longrightarrow>
         (\<exists>u. sql_executor_node env s = Inr u \<and> u_errors u = Some (errors s @ [m])))
   \<and> (\<forall>q cur. sql_query s = Some q \<and> sqlite_store env q = Inr cur \<longrightarrow>
         (\<exists>u. sql_executor_node env s = Inr u \<and> u_errors u = None))"
  using trace_invariant [of _ envs it]
  by (auto simp: node_defs no_update_def run_sqlite_query_def Let_def)

theorem error_log_at_most_one_witness:
  "(let env = scripted_env ''SQL'' ''SELEKT 1'';
        s = example_state\<lparr>sql_query := Some ''SELEKT 1''\<rparr>;
        s' = example_state\<lparr>sql_query := Some ''SELECT 1''\<rparr>;
        c = ([Generate_sql],
             s\<lparr>classification := Some ''SQL'', errors := [''syntax error''], retry_count := 1\<rparr>)
    in c \<in> set (trace (replicate 25 env) ([Router], initial_state example_item))
       \<and> length (errors (snd c)) \<le> 1
       \<and> (\<exists>u. router_node env s = Inr u \<and> u_errors u = Some [])
       \<and> (\<exists>u. sql_generator_node env s = Inr u \<and> u_errors u = Some [])
       \<and> sql_query s = Some ''SELEKT 1'' \<and> sqlite_store env ''SELEKT 1'' = Inl ''syntax error''
       \<and> (\<exists>u. sql_executor_node env s = Inr u \<and> u_errors u = Some [''syntax error''])
       \<and> sql_query s' = Some ''SELECT 1''
       \<and> sqlite_store env ''SELECT 1'' = Inr (Cursor [[1]] (Some [''1'']))
       \<and> (\<exists>u. sql_executor_node env s' = Inr u \<and> u_errors u = None))"
  using error_log_at_most_one [of "replicate 25 (scripted_env ''SQL'' ''SELEKT 1'')" example_item
      "scripted_env ''SQL'' ''SELEKT 1''" "example_state\<lparr>sql_query := Some ''SELEKT 1''\<rparr>"]
    error_log_at_most_one [of "replicate 25 (scripted_env ''SQL'' ''SELEKT 1'')" example_item
      "scripted_env ''SQL'' ''SELEKT 1''" "example_state\<lparr>sql_query := Some ''SELECT 1''\<rparr>"]
  by (simp add: Let_def eval_nat_numeral superstep_simps example_defs question_with_context_def
      node_defs no_update_def run_sqlite_query_def)

section \<open>A classification outside the three labels\<close>

text \<open>
  Claim C10. When the classification is none of \<open>SQL\<close>, \<open>RAG\<close> and \<open>Hybrid\<close>, the routing
  function after the router returns nothing, no destination follows from it, and the run
  stops there with an error instead of going down one of the three branches.
\<close>

theorem unknown_label_no_successor:
  "(classification state \<notin> {Some ''SQL'', Some ''RAG'', Some ''Hybrid''} \<longrightarrow>
      route_question state = None \<and> successors Router state = Inl BranchError)
   \<and> (router_module env (question state) \<notin> {''SQL'', ''RAG'', ''Hybrid''} \<longrightarrow>
      superstep env ([Router], state) = Inl BranchError \<and> app_invoke env state = Inl BranchError)"
  by (simp add: graph_defs app_invoke_unfold superstep_Router)

theorem unknown_label_no_successor_witness:
  "(let env = scripted_env ''Other'' ''SELECT 1'';
        s = example_state\<lparr>classification := Some ''Other''\<rparr>
    in classification s \<notin> {Some ''SQL'', Some ''RAG'', Some ''Hybrid''}
       \<and> route_question s = None
       \<and> successors Router s = Inl BranchError
       \<and> router_module env (question example_state) \<notin> {''SQL'', ''RAG'', ''Hybrid''}
       \<and> app_invoke env example_state = Inl BranchError)"
  using unknown_label_no_successor
    [of "example_state\<lparr>classification := Some ''Other''\<rparr>" "scripted_env ''Other'' ''SELECT 1''"]
    unknown_label_no_successor
    [of "example_state" "scripted_env ''Other'' ''SELECT 1''"]
  by (simp add: Let_def scripted_env_def)

section \<open>The search\<close>

lemma stable_argsort_ok: "is_argsort_of xs (stable_argsort xs)"
  by (simp add: is_argsort_of_def stable_argsort_def sorted_sort_key)

lemma length_argsort:
  "is_argsort_of xs idx \<Longrightarrow> length idx = length xs"
  unfolding is_argsort_of_def
  using distinct_card [of idx] by simp

lemma slice_last_pos:
  "0 < k \<Longrightarrow> slice_last k xs = drop (length xs - nat k) xs"
  by (auto simp: slice_last_def Let_def max_def nat_diff_distrib')

lemma length_slice_last:
  "0 < k \<Longrightarrow> length (slice_last k xs) = min (nat k) (length xs)"
  by (simp add: slice_last_pos)

lemma set_slice_last: "set (slice_last k xs) \<subseteq> set xs"
  by (simp add: slice_last_def Let_def set_drop_subset)

lemma collect_results_Inr:
  "\<forall>i \<in> set idx. i < length sims \<and> i < length cs \<Longrightarrow>
     collect_results sims cs idx = Inr (map (\<lambda>i. \<lparr>score = sims ! i, chunk = cs ! i\<rparr>) idx)"
  by (induction idx) simp_all

lemma search_built:
  assumes "built r" and "is_argsort_of (similarities transform cosine r query)
                            (argsort (similarities transform cosine r query))"
  shows "search argsort transform cosine r query k =
           Inr (map (\<lambda>i. \<lparr>score = similarities transform cosine r query ! i, chunk = chunks r ! i\<rparr>)
                  (rev (slice_last k (argsort (similarities transform cosine r query)))))"
proof -
  from assms(1) obtain m where m: "tfidf_matrix r = Some m" "chunks r \<noteq> []" "length m = length (chunks r)"
    by (auto simp: built_def split: option.splits)
  let ?sims = "map (cosine (transform query)) m"
  have sims: "similarities transform cosine r query = ?sims"
    by (simp add: similarities_def m)
  have "set (argsort ?sims) = {0..<length m}"
    using assms(2) by (simp add: sims is_argsort_of_def)
  then have "\<forall>i \<in> set (rev (slice_last k (argsort ?sims))). i < length ?sims \<and> i < length (chunks r)"
    using set_slice_last [of k "argsort ?sims"] m(3) by auto
  then show ?thesis
    by (simp add: search_def m sims Let_def collect_results_Inr)
qed

lemma index_directory_built:
  assumes "index_directory fit_transform r0 files = Inr r"
    and "\<And>texts m. fit_transform texts = Inr m \<Longrightarrow> length m = length texts"
    and "chunks r \<noteq> []"
  shows "built r"
  using assms
  by (auto simp: index_directory_def built_def Let_def split: if_splits sum.splits)

lemma example_index_eq:
  "example_index =
     Inr \<lparr>chunks =
           [\<lparr>content = ''Cats are mammals.'', source = ''a.md'', chunk_id = 0\<rparr>,
            \<lparr>content = ''Dogs are mammals too.'', source = ''a.md'', chunk_id = 1\<rparr>,
            \<lparr>content = ''Paris is a city.'', source = ''b.md'', chunk_id = 0\<rparr>],
          tfidf_matrix = Some [0, 1, 2]\<rparr>"
  by code_simp

lemma example_similarities:
  "similarities (\<lambda>q. 0) example_cosine example_retriever q = [1, 1, 0]"
  by (simp add: similarities_def example_retriever_def example_cosine_def)

lemma example_argsort_answers:
  "is_argsort_of [1, 1, 0 :: int] [2, 0, 1] \<and> is_argsort_of [1, 1, 0 :: int] [2, 1, 0]"
  by code_simp

lemma example_argsort: "stable_argsort [1, 1, 0 :: int] = [2, 0, 1]"
  by (simp add: stable_argsort_def upt_rec)

text \<open>
  Claim C8. On a built index with \<open>n\<close> chunks, for every query and every positive \<open>k\<close>, and
  for any answer of \<^verbatim>\<open>argsort\<close>, the search returns exactly \<open>min k n\<close> results, each a
  chunk of the index with its similarity. Nothing is filtered by score: when every
  similarity has one and the same value, zero for a query without a known term, the search
  still returns \<open>min k n\<close> results, all with that score. The results are the chunks at
  pairwise different positions of the index.
\<close>

theorem search_returns_min_k_n:
  assumes "built r" and "0 < k"
    and "is_argsort_of (similarities transform cosine r query)
           (argsort (similarities transform cosine r query))"
  shows "\<exists>res. search argsort transform cosine r query k = Inr res
           \<and> length res = min (nat k) (length (chunks r))
           \<and> (\<forall>x \<in> set res. \<exists>i < length (chunks r).
                 x = \<lparr>score = similarities transform cosine r query ! i, chunk = chunks r ! i\<rparr>)
           \<and> ((\<forall>s \<in> set (similarities transform cosine r query). s = z) \<longrightarrow>
                 map score res = replicate (min (nat k) (length (chunks r))) z)
           \<and> (\<exists>idx. distinct idx
                 \<and> res = map (\<lambda>i. \<lparr>score = similarities transform cosine r query ! i,
                                       chunk = chunks r ! i\<rparr>) idx)"
proof -
  let ?sims = "similarities transform cosine r query"
  let ?idx = "rev (slice_last k (argsort ?sims))"
  let ?res = "map (\<lambda>i. \<lparr>score = ?sims ! i, chunk = chunks r ! i\<rparr>) ?idx"
  have n: "length ?sims = length (chunks r)"
    using assms(1) by (auto simp: built_def similarities_def split: option.splits)
  have res: "search argsort transform cosine r query k = Inr ?res"
    using assms(1,3) by (rule search_built)
  have len: "length ?res = min (nat k) (length (chunks r))"
    using assms(2) length_argsort [OF assms(3)] n by (simp add: length_slice_last)
  have range: "\<forall>i \<in> set ?idx. i < length (chunks r)"
    using set_slice_last [of k "argsort ?sims"] assms(3) n by (auto simp: is_argsort_of_def)
  then have mem: "\<forall>x \<in> set ?res. \<exists>i < length (chunks r).
                 x = \<lparr>score = ?sims ! i, chunk = chunks r ! i\<rparr>"
    by auto
  have zero: "map score ?res = replicate (min (nat k) (length (chunks r))) z"
    if "\<forall>s \<in> set ?sims. s = z"
  proof -
    have "\<forall>i \<in> set ?idx. ?sims ! i = z"
      using that range n by (metis nth_mem)
    then have "map score ?res = map (\<lambda>i. z) ?idx"
      by simp
    also have "\<dots> = replicate (length ?idx) z"
      by (simp add: map_replicate_const)
    finally show ?thesis using len by simp
  qed
  have "distinct ?idx"
    using assms(2,3) by (simp add: is_argsort_of_def slice_last_pos)
  then have idx: "\<exists>idx. distinct idx
                 \<and> ?res = map (\<lambda>i. \<lparr>score = ?sims ! i, chunk = chunks r ! i\<rparr>) idx"
    by blast
  from res len mem zero idx show ?thesis by blast
qed

theorem search_returns_min_k_n_witness:
  "built example_retriever \<and> (0::int) < 3
   \<and> is_argsort_of (similarities (\<lambda>q. 0) (\<lambda>a b. 0 :: int) example_retriever ''weather'')
        (stable_argsort (similarities (\<lambda>q. 0) (\<lambda>a b. 0 :: int) example_retriever ''weather''))
   \<and> (\<exists>res. search stable_argsort (\<lambda>q. 0) (\<lambda>a b. 0 :: int) example_retriever ''weather'' 3 = Inr res
          \<and> length res = 3 \<and> map score res = [0, 0, 0])"
  using search_returns_min_k_n [of example_retriever 3 "\<lambda>q. 0" "\<lambda>a b. 0 :: int" "''weather''"
      stable_argsort 0, OF _ _ stable_argsort_ok]
  by (auto simp: built_def example_retriever_def similarities_def stable_argsort_ok eval_nat_numeral)

text \<open>
  Claim C3, as the code has it. On a built index, for every query and every positive \<open>k\<close>,
  and for any answer of \<^verbatim>\<open>argsort\<close>, the search returns at most \<open>k\<close> results whose scores
  never increase along the list, and no chunk twice. The results are the last \<open>k\<close> indices
  of the sort, reversed: chunks of equal score come in the reverse of the order in which the
  sort left them, whatever that is; the source and the ordinal play no part. The search is
  a function of the index, the query and \<open>k\<close>, and changes none of them.
\<close>

theorem search_order:
  assumes "built r" and "0 < k"
    and "is_argsort_of (similarities transform cosine r query)
           (argsort (similarities transform cosine r query))"
  shows "\<exists>res. search argsort transform cosine r query k = Inr res
           \<and> length res \<le> nat k
           \<and> sorted (rev (map score res))
           \<and> res = map (\<lambda>i. \<lparr>score = similarities transform cosine r query ! i, chunk = chunks r ! i\<rparr>)
                     (rev (slice_last k (argsort (similarities transform cosine r query))))
           \<and> distinct (rev (slice_last k (argsort (similarities transform cosine r query))))"
proof -
  let ?sims = "similarities transform cosine r query"
  let ?idx = "slice_last k (argsort ?sims)"
  let ?res = "map (\<lambda>i. \<lparr>score = ?sims ! i, chunk = chunks r ! i\<rparr>) (rev ?idx)"
  have res: "search argsort transform cosine r query k = Inr ?res"
    using assms(1,3) by (rule search_built)
  have len: "length ?res \<le> nat k"
    using assms(2) by (simp add: length_slice_last)
  have "rev (map score ?res) = map (\<lambda>i. ?sims ! i) ?idx"
    by (simp add: rev_map comp_def)
  also have "\<dots> = drop (length (argsort ?sims) - nat k) (map (\<lambda>i. ?sims ! i) (argsort ?sims))"
    using assms(2) by (simp add: slice_last_pos drop_map)
  finally have sorted: "sorted (rev (map score ?res))"
    using assms(3) by (simp add: is_argsort_of_def sorted_wrt_drop)
  have "distinct (rev ?idx)"
    using assms(2,3) by (simp add: is_argsort_of_def slice_last_pos)
  with res len sorted show ?thesis by blast
qed

theorem search_order_witness:
  "built example_retriever \<and> (0::int) < 2
   \<and> is_argsort_of (similarities (\<lambda>q. 0) example_cosine example_retriever ''mammals'')
        (stable_argsort (similarities (\<lambda>q. 0) example_cosine example_retriever ''mammals''))
   \<and> (\<exists>res. search stable_argsort (\<lambda>q. 0) example_cosine example_retriever ''mammals'' 2 = Inr res
          \<and> length res \<le> 2 \<and> sorted (rev (map score res)))"
  using search_order [of example_retriever 2 "\<lambda>q. 0" example_cosine "''mammals''"
      stable_argsort, OF _ _ stable_argsort_ok]
  by (auto simp: built_def example_retriever_def stable_argsort_ok)

text \<open>
  Two chunks of one source with the same score. The sort has two answers for these scores.
  With either of them the two results have the same score, so that the scores do not
  strictly descend; and with the answer that leaves equal values in the order of their
  indices the chunk of ordinal 1 comes before the chunk of ordinal 0.
\<close>

theorem search_ties_counterexample:
  "example_index = Inr example_retriever
   \<and> search stable_argsort (\<lambda>q. 0) example_cosine example_retriever ''mammals'' 2 =
       Inr [\<lparr>score = 1, chunk = \<lparr>content = ''Dogs are mammals too.'', source = ''a.md'', chunk_id = 1\<rparr>\<rparr>,
            \<lparr>score = 1, chunk = \<lparr>content = ''Cats are mammals.'', source = ''a.md'', chunk_id = 0\<rparr>\<rparr>]
   \<and> is_argsort_of (similarities (\<lambda>q. 0) example_cosine example_retriever ''mammals'') [2, 0, 1]
   \<and> is_argsort_of (similarities (\<lambda>q. 0) example_cosine example_retriever ''mammals'') [2, 1, 0]
   \<and> search (\<lambda>xs. [2, 0, 1]) (\<lambda>q. 0) example_cosine example_retriever ''mammals'' 2 =
       Inr [\<lparr>score = 1, chunk = \<lparr>content = ''Dogs are mammals too.'', source = ''a.md'', chunk_id = 1\<rparr>\<rparr>,
            \<lparr>score = 1, chunk = \<lparr>content = ''Cats are mammals.'', source = ''a.md'', chunk_id = 0\<rparr>\<rparr>]
   \<and> search (\<lambda>xs. [2, 1, 0]) (\<lambda>q. 0) example_cosine example_retriever ''mammals'' 2 =
       Inr [\<lparr>score = 1, chunk = \<lparr>content = ''Cats are mammals.'', source = ''a.md'', chunk_id = 0\<rparr>\<rparr>,
            \<lparr>score = 1, chunk = \<lparr>content = ''Dogs are mammals too.'', source = ''a.md'', chunk_id = 1\<rparr>\<rparr>]"
  by code_simp

section \<open>The paragraphs of a document\<close>

lemma re_split_not_Nil: "re_split t \<noteq> []"
  by (cases t) (auto split: list.splits)

lemma re_split_first:
  "re_split t = p # ps \<Longrightarrow> p \<noteq> [] \<Longrightarrow> t \<noteq> [] \<and> hd t = hd p"
  by (cases t) (auto split: if_splits list.splits)

lemma re_split_blank_free: "p \<in> set (re_split t) \<Longrightarrow> blank_free p"
proof (induction t arbitrary: p rule: re_split.induct)
  case 1
  then show ?case by simp
next
  case (2 c cs)
  show ?case
  proof (cases "c = NL \<and> cs \<noteq> [] \<and> hd cs = NL")
    case True
    with 2 show ?thesis by auto
  next
    case False
    obtain q qs where q: "re_split cs = q # qs"
      using re_split_not_Nil [of cs] by (cases "re_split cs") auto
    from False q "2.prems" have "p = c # q \<or> p \<in> set qs" by auto
    then show ?thesis
    proof
      assume p: "p = c # q"
      have bq: "blank_free q" using "2.IH"(2) [OF False, of q] q by simp
      show ?thesis
      proof (cases q)
        case Nil
        with p show ?thesis by simp
      next
        case (Cons b q')
        with re_split_first [OF q] have "cs \<noteq> []" "hd cs = b" by auto
        with False have "\<not> (c = NL \<and> b = NL)" by auto
        with bq p Cons show ?thesis by simp
      qed
    next
      assume "p \<in> set qs"
      with "2.IH"(2) [OF False, of p] q show ?thesis by simp
    qed
  qed
qed

lemma re_split_weave:
  "\<exists>seps. length seps + 1 = length (re_split t)
          \<and> (\<forall>s \<in> set seps. 2 \<le> length s \<and> set s \<subseteq> {NL})
          \<and> weave (re_split t) seps = t"
proof (induction t rule: re_split.induct)
  case 1
  show ?case by (rule exI [of _ "[]"]) simp
next
  case (2 c cs)
  show ?case
  proof (cases "c = NL \<and> cs \<noteq> [] \<and> hd cs = NL")
    case True
    let ?run = "c # takeWhile (\<lambda>x. x = NL) cs"
    from "2.IH"(1) [OF True] obtain seps where seps:
      "length seps + 1 = length (re_split (dropWhile (\<lambda>x. x = NL) cs))"
      "\<forall>s \<in> set seps. 2 \<le> length s \<and> set s \<subseteq> {NL}"
      "weave (re_split (dropWhile (\<lambda>x. x = NL) cs)) seps = dropWhile (\<lambda>x. x = NL) cs"
      by blast
    from True have "takeWhile (\<lambda>x. x = NL) cs \<noteq> []"
      by (cases cs) auto
    then have len: "2 \<le> length ?run"
      by (cases "takeWhile (\<lambda>x. x = NL) cs") auto
    have nl: "set ?run \<subseteq> {NL}"
      using True by (auto dest: set_takeWhileD)
    have "weave (re_split (c # cs)) (?run # seps) = c # cs"
      using True seps(3) by simp
    moreover have "length (?run # seps) + 1 = length (re_split (c # cs))"
      using True seps(1) by simp
    moreover have "\<forall>s \<in> set (?run # seps). 2 \<le> length s \<and> set s \<subseteq> {NL}"
      using seps(2) len nl by simp
    ultimately show ?thesis by blast
  next
    case False
    obtain q qs where q: "re_split cs = q # qs"
      using re_split_not_Nil [of cs] by (cases "re_split cs") auto
    from "2.IH"(2) [OF False] obtain seps where seps:
      "length seps + 1 = length (re_split cs)"
      "\<forall>s \<in> set seps. 2 \<le> length s \<and> set s \<subseteq> {NL}"
      "weave (re_split cs) seps = cs"
      by blast
    have r: "re_split (c # cs) = (c # q) # qs"
      using False q by simp
    have "weave (re_split (c # cs)) seps = c # cs"
      using q seps(3) unfolding r by (cases seps) auto
    moreover have "length seps + 1 = length (re_split (c # cs))"
      using q seps(1) unfolding r by simp
    ultimately show ?thesis using seps(2) by blast
  qed
qed

lemma strip_Nil_iff: "strip p = [] \<longleftrightarrow> (\<forall>c \<in> set p. py_isspace c)"
proof
  assume "strip p = []"
  then have all: "\<forall>c \<in> set (dropWhile py_isspace p). py_isspace c"
    by (simp add: strip_def rstrip_def lstrip_def dropWhile_eq_Nil_conv)
  have "dropWhile py_isspace p = []"
  proof (rule ccontr)
    assume ne: "dropWhile py_isspace p \<noteq> []"
    then have "\<not> py_isspace (hd (dropWhile py_isspace p))"
      by (rule hd_dropWhile)
    moreover have "hd (dropWhile py_isspace p) \<in> set (dropWhile py_isspace p)"
      using ne by simp
    ultimately show False using all by blast
  qed
  then show "\<forall>c \<in> set p. py_isspace c"
    by (simp add: dropWhile_eq_Nil_conv)
next
  assume "\<forall>c \<in> set p. py_isspace c"
  then have "dropWhile py_isspace p = []"
    by (simp add: dropWhile_eq_Nil_conv)
  then show "strip p = []"
    unfolding strip_def rstrip_def lstrip_def by (simp only: rev.simps dropWhile.simps)
qed

lemma chunk_loop_eq:
  "chunk_loop acc filename xs =
     acc @ map (\<lambda>(i, p). \<lparr>content = strip p, source = filename, chunk_id = i\<rparr>)
                (filter (\<lambda>(i, p). strip p \<noteq> []) xs)"
  by (induction xs arbitrary: acc) auto

lemma split_into_chunks_eq:
  "split_into_chunks acc text filename =
     acc @ map (\<lambda>(i, p). \<lparr>content = strip p, source = filename, chunk_id = i\<rparr>)
                (filter (\<lambda>(i, p). \<not> (\<forall>c \<in> set p. py_isspace c)) (enumerate 0 (re_split text)))"
  by (simp add: split_into_chunks_def chunk_loop_eq strip_Nil_iff Let_def)

lemma new_chunk_ids:
  "map chunk_id (drop (length acc) (split_into_chunks acc text filename)) =
     map fst (filter (\<lambda>(i, p). \<not> (\<forall>c \<in> set p. py_isspace c)) (enumerate 0 (re_split text)))"
  by (simp add: split_into_chunks_eq comp_def case_prod_unfold)

lemma sorted_fst_enumerate: "sorted_wrt (\<lambda>x y. fst x < fst y) (enumerate n xs)"
proof -
  have "sorted_wrt (\<lambda>x y. fst x < fst y) (enumerate n xs)
          = sorted_wrt (<) (map fst (enumerate n xs))"
    by (simp only: sorted_wrt_map)
  then show ?thesis by simp
qed

lemma new_chunk_ids_sorted:
  "sorted_wrt (<) (map chunk_id (drop (length acc) (split_into_chunks acc text filename)))"
  unfolding new_chunk_ids
  by (simp add: sorted_wrt_map sorted_wrt_filter sorted_fst_enumerate)

lemma new_chunk_ids_all:
  assumes "\<forall>p \<in> set (re_split text). \<not> (\<forall>c \<in> set p. py_isspace c)"
  shows "map chunk_id (drop (length acc) (split_into_chunks acc text filename))
           = [0..<length (re_split text)]"
proof -
  have "filter (\<lambda>(i, p). \<not> (\<forall>c \<in> set p. py_isspace c)) (enumerate 0 (re_split text))
          = enumerate 0 (re_split text)"
    using assms by (auto simp: filter_id_conv in_set_enumerate_eq)
  then show ?thesis
    unfolding new_chunk_ids by simp
qed


lemma example_split:
  "re_split (''Intro'' @ [NL, NL] @ '' '' @ [NL, NL] @ ''Body'') = [''Intro'', '' '', ''Body'']"
  by code_simp

lemma re_split_empty_first:
  "re_split t = [] # qs \<Longrightarrow> qs \<noteq> [] \<Longrightarrow> t \<noteq> [] \<and> hd t = NL"
  by (cases t) (auto split: if_splits list.splits)

lemma re_split_after_run:
  "p \<in> set (tl (re_split t)) \<Longrightarrow> p = [] \<or> hd p \<noteq> NL"
proof (induction t arbitrary: p rule: re_split.induct)
  case 1
  then show ?case by simp
next
  case (2 c cs)
  show ?case
  proof (cases "c = NL \<and> cs \<noteq> [] \<and> hd cs = NL")
    case True
    let ?rest = "dropWhile (\<lambda>x. x = NL) cs"
    obtain q qs where q: "re_split ?rest = q # qs"
      using re_split_not_Nil [of ?rest] by (cases "re_split ?rest") auto
    from True "2.prems" q have "p = q \<or> p \<in> set qs" by auto
    then show ?thesis
    proof
      assume p: "p = q"
      show ?thesis
      proof (cases "q = []")
        case True
        with p show ?thesis by simp
      next
        case False
        with re_split_first [OF q] have "?rest \<noteq> []" "hd ?rest = hd q" by auto
        moreover from \<open>?rest \<noteq> []\<close> have "\<not> (hd ?rest = NL)" by (rule hd_dropWhile)
        ultimately show ?thesis using p by simp
      qed
    next
      assume "p \<in> set qs"
      with "2.IH"(1) [OF True, of p] q show ?thesis by simp
    qed
  next
    case False
    obtain q qs where q: "re_split cs = q # qs"
      using re_split_not_Nil [of cs] by (cases "re_split cs") auto
    with False "2.prems" have "p \<in> set (tl (re_split cs))" by auto
    with "2.IH"(2) [OF False] show ?thesis by simp
  qed
qed

lemma re_split_before_run:
  "p \<in> set (butlast (re_split t)) \<Longrightarrow> p = [] \<or> last p \<noteq> NL"
proof (induction t arbitrary: p rule: re_split.induct)
  case 1
  then show ?case by simp
next
  case (2 c cs)
  show ?case
  proof (cases "c = NL \<and> cs \<noteq> [] \<and> hd cs = NL")
    case True
    let ?rest = "dropWhile (\<lambda>x. x = NL) cs"
    from True "2.prems" re_split_not_Nil [of ?rest]
    have "p = [] \<or> p \<in> set (butlast (re_split ?rest))" by auto
    with "2.IH"(1) [OF True, of p] show ?thesis by auto
  next
    case False
    obtain q qs where q: "re_split cs = q # qs"
      using re_split_not_Nil [of cs] by (cases "re_split cs") auto
    have r: "re_split (c # cs) = (c # q) # qs"
      using False q by simp
    show ?thesis
    proof (cases "qs = []")
      case True
      with "2.prems" show ?thesis unfolding r by simp
    next
      case qs: False
      with "2.prems" have "p = c # q \<or> p \<in> set (butlast qs)" unfolding r by auto
      then show ?thesis
      proof
        assume p: "p = c # q"
        show ?thesis
        proof (cases "q = []")
          case True
          with re_split_empty_first [of cs qs] q qs have "cs \<noteq> []" "hd cs = NL" by auto
          with False have "c \<noteq> NL" by auto
          with p True show ?thesis by simp
        next
          case False
          have "q \<in> set (butlast (re_split cs))" using q qs by simp
          with "2.IH"(2) [OF \<open>\<not> (c = NL \<and> cs \<noteq> [] \<and> hd cs = NL)\<close>, of q] False
          have "last q \<noteq> NL" by simp
          with p False show ?thesis by simp
        qed
      next
        assume "p \<in> set (butlast qs)"
        then have "p \<in> set (butlast (re_split cs))" using q qs by simp
        with "2.IH"(2) [OF False] show ?thesis by simp
      qed
    qed
  qed
qed

lemma strict_sorted_upt_unique:
  "sorted_wrt (<) xs \<Longrightarrow> set xs = {0..<k} \<Longrightarrow> xs = [0..<k]"
proof -
  assume a: "sorted_wrt (<) xs" and b: "set xs = {0..<k}"
  from a have "sorted xs" "distinct xs" by (simp_all add: strict_sorted_iff)
  moreover have "sorted [0..<k]" "distinct [0..<k]" by simp_all
  moreover have "set xs = set [0..<k]" using b by simp
  ultimately show ?thesis by (rule sorted_distinct_set_unique)
qed

lemma kept_positions:
  "set (map fst (filter (\<lambda>(i, p). Q p) (enumerate 0 ps))) = {i. i < length ps \<and> Q (ps ! i)}"
proof (rule set_eqI)
  fix i
  have "i \<in> set (map fst (filter (\<lambda>(i, p). Q p) (enumerate 0 ps)))
          \<longleftrightarrow> (\<exists>p. (i, p) \<in> set (enumerate 0 ps) \<and> Q p)"
    by force
  also have "\<dots> \<longleftrightarrow> i < length ps \<and> Q (ps ! i)"
    by (simp add: in_set_enumerate_eq)
  finally show "i \<in> set (map fst (filter (\<lambda>(i, p). Q p) (enumerate 0 ps)))
          \<longleftrightarrow> i \<in> {i. i < length ps \<and> Q (ps ! i)}"
    by simp
qed

lemma kept_positions_upt:
  fixes ps :: "'a list" and Q :: "'a \<Rightarrow> bool"
  defines "ids \<equiv> map fst (filter (\<lambda>(i, p). Q p) (enumerate 0 ps))"
  shows "ids = [0..<length ids] \<longleftrightarrow> (\<forall>i < length ids. Q (ps ! i))"
proof
  have mem: "i \<in> set ids \<longleftrightarrow> i < length ps \<and> Q (ps ! i)" for i
    unfolding ids_def kept_positions by simp
  {
    assume "ids = [0..<length ids]"
    then have "set ids = set [0..<length ids]" by simp
    then have "i \<in> set ids" if "i < length ids" for i
      using that by simp
    then show "\<forall>i < length ids. Q (ps ! i)"
      using mem by blast
  }
  {
    assume q: "\<forall>i < length ids. Q (ps ! i)"
    have sorted: "sorted_wrt (<) ids"
      unfolding ids_def by (simp add: sorted_wrt_map sorted_wrt_filter sorted_fst_enumerate)
    have le: "length ids \<le> length ps"
      unfolding ids_def using length_filter_le [of "\<lambda>(i, p). Q p" "enumerate 0 ps"] by simp
    have sub: "{0..<length ids} \<subseteq> set ids"
    proof
      fix i assume "i \<in> {0..<length ids}"
      then have "i < length ids" by simp
      with q le have "i < length ps \<and> Q (ps ! i)" by simp
      then show "i \<in> set ids" using mem by blast
    qed
    have "distinct ids"
      using sorted by (simp add: strict_sorted_iff)
    then have "card (set ids) = length ids"
      by (rule distinct_card)
    then have "card (set ids) \<le> card {0..<length ids}" by simp
    with sub have "{0..<length ids} = set ids"
      by (intro card_seteq) simp_all
    then have "set ids = {0..<length ids}" by simp
    with sorted show "ids = [0..<length ids]"
      by (rule strict_sorted_upt_unique)
  }
qed

lemma new_chunk_ids_upt:
  "map chunk_id (drop (length acc) (split_into_chunks acc doc filename))
       = [0..<length (drop (length acc) (split_into_chunks acc doc filename))]
   \<longleftrightarrow> (\<forall>i < length (drop (length acc) (split_into_chunks acc doc filename)).
          \<not> (\<forall>c \<in> set (re_split doc ! i). py_isspace c))"
proof -
  let ?ids = "map fst (filter (\<lambda>(i, p). \<not> (\<forall>c \<in> set p. py_isspace c)) (enumerate 0 (re_split doc)))"
  have len: "length (drop (length acc) (split_into_chunks acc doc filename)) = length ?ids"
    by (simp add: split_into_chunks_eq)
  show ?thesis
    unfolding len new_chunk_ids
    by (rule kept_positions_upt)
qed

text \<open>
  Claim C6, as the code has it. The text of a document is cut at the runs of two or more
  line breaks: the pieces, with runs of at least two line breaks between them, give the text
  back, no piece holds two line breaks in a row, and no piece next to a run starts or ends
  with a line break on that side. A piece is dropped exactly when all its characters are
  whitespace, and a kept piece is stored stripped, under the name of its file. The ordinal
  of a chunk is the position of its piece among all the pieces of the document, the dropped
  ones counted: the ordinals of a document ascend strictly in the order of appearance. They
  are 0, 1, 2, ... exactly when no dropped piece comes before a kept one, that is when the
  first pieces, as many as there are chunks, are all kept; so they are when no piece is
  dropped.
\<close>

theorem split_into_chunks_ordinals:
  "(\<exists>seps. length seps + 1 = length (re_split doc)
       \<and> (\<forall>s \<in> set seps. 2 \<le> length s \<and> set s \<subseteq> {NL})
       \<and> weave (re_split doc) seps = doc)
   \<and> (\<forall>p \<in> set (re_split doc). blank_free p)
   \<and> (\<forall>p \<in> set (tl (re_split doc)). p = [] \<or> hd p \<noteq> NL)
   \<and> (\<forall>p \<in> set (butlast (re_split doc)). p = [] \<or> last p \<noteq> NL)
   \<and> split_into_chunks acc doc filename =
       acc @ map (\<lambda>(i, p). \<lparr>content = strip p, source = filename, chunk_id = i\<rparr>)
               (filter (\<lambda>(i, p). \<not> (\<forall>c \<in> set p. py_isspace c)) (enumerate 0 (re_split doc)))
   \<and> sorted_wrt (<) (map chunk_id (drop (length acc) (split_into_chunks acc doc filename)))
   \<and> ((\<forall>p \<in> set (re_split doc). \<not> (\<forall>c \<in> set p. py_isspace c)) \<longrightarrow>
        map chunk_id (drop (length acc) (split_into_chunks acc doc filename))
          = [0..<length (re_split doc)])
   \<and> (map chunk_id (drop (length acc) (split_into_chunks acc doc filename))
          = [0..<length (drop (length acc) (split_into_chunks acc doc filename))]
        \<longleftrightarrow> (\<forall>i < length (drop (length acc) (split_into_chunks acc doc filename)).
               \<not> (\<forall>c \<in> set (re_split doc ! i). py_isspace c)))"
proof -
  have 1: "\<exists>seps. length seps + 1 = length (re_split doc)
       \<and> (\<forall>s \<in> set seps. 2 \<le> length s \<and> set s \<subseteq> {NL})
       \<and> weave (re_split doc) seps = doc"
    by (rule re_split_weave)
  have 2: "\<forall>p \<in> set (re_split doc). blank_free p"
    using re_split_blank_free by blast
  have 3: "\<forall>p \<in> set (tl (re_split doc)). p = [] \<or> hd p \<noteq> NL"
    using re_split_after_run by blast
  have 4: "\<forall>p \<in> set (butlast (re_split doc)). p = [] \<or> last p \<noteq> NL"
    using re_split_before_run by blast
  have 7: "(\<forall>p \<in> set (re_split doc). \<not> (\<forall>c \<in> set p. py_isspace c)) \<longrightarrow>
        map chunk_id (drop (length acc) (split_into_chunks acc doc filename))
          = [0..<length (re_split doc)]"
    using new_chunk_ids_all by blast
  show ?thesis
    by (intro conjI) (rule 1, rule 2, rule 3, rule 4, rule split_into_chunks_eq,
        rule new_chunk_ids_sorted, rule 7, rule new_chunk_ids_upt)
qed

theorem split_into_chunks_ordinals_witness:
  "re_split (''Cats are mammals.'' @ [NL, NL] @ ''Dogs are mammals too.'')
     = [''Cats are mammals.'', ''Dogs are mammals too.'']
   \<and> \<not> (\<forall>c \<in> set ''Cats are mammals.''. py_isspace c)
   \<and> \<not> (\<forall>c \<in> set ''Dogs are mammals too.''. py_isspace c)
   \<and> weave [''Cats are mammals.'', ''Dogs are mammals too.''] [[NL, NL]]
       = ''Cats are mammals.'' @ [NL, NL] @ ''Dogs are mammals too.''
   \<and> split_into_chunks [] (''Cats are mammals.'' @ [NL, NL] @ ''Dogs are mammals too.'') ''a.md''
       = [\<lparr>content = ''Cats are mammals.'', source = ''a.md'', chunk_id = 0\<rparr>,
          \<lparr>content = ''Dogs are mammals too.'', source = ''a.md'', chunk_id = 1\<rparr>]
   \<and> map chunk_id (drop (length ([] :: chunk list))
         (split_into_chunks [] (''Cats are mammals.'' @ [NL, NL] @ ''Dogs are mammals too.'') ''a.md''))
       = [0..<2]
   \<and> re_split (''Cats are mammals.'' @ [NL, NL] @ ''Dogs are mammals too.'' @ [NL, NL, NL])
       = [''Cats are mammals.'', ''Dogs are mammals too.'', []]
   \<and> map chunk_id (drop (length ([] :: chunk list))
         (split_into_chunks []
            (''Cats are mammals.'' @ [NL, NL] @ ''Dogs are mammals too.'' @ [NL, NL, NL]) ''a.md''))
       = [0..<2]"
proof -
  have c: "re_split (''Cats are mammals.'' @ [NL, NL] @ ''Dogs are mammals too.'')
     = [''Cats are mammals.'', ''Dogs are mammals too.'']
   \<and> \<not> (\<forall>c \<in> set ''Cats are mammals.''. py_isspace c)
   \<and> \<not> (\<forall>c \<in> set ''Dogs are mammals too.''. py_isspace c)
   \<and> weave [''Cats are mammals.'', ''Dogs are mammals too.''] [[NL, NL]]
       = ''Cats are mammals.'' @ [NL, NL] @ ''Dogs are mammals too.''
   \<and> split_into_chunks [] (''Cats are mammals.'' @ [NL, NL] @ ''Dogs are mammals too.'') ''a.md''
       = [\<lparr>content = ''Cats are mammals.'', source = ''a.md'', chunk_id = 0\<rparr>,
          \<lparr>content = ''Dogs are mammals too.'', source = ''a.md'', chunk_id = 1\<rparr>]
   \<and> map chunk_id (drop (length ([] :: chunk list))
         (split_into_chunks [] (''Cats are mammals.'' @ [NL, NL] @ ''Dogs are mammals too.'') ''a.md''))
       = [0..<2]
   \<and> re_split (''Cats are mammals.'' @ [NL, NL] @ ''Dogs are mammals too.'' @ [NL, NL, NL])
       = [''Cats are mammals.'', ''Dogs are mammals too.'', []]
   \<and> map chunk_id (drop (length ([] :: chunk list))
         (split_into_chunks []
            (''Cats are mammals.'' @ [NL, NL] @ ''Dogs are mammals too.'' @ [NL, NL, NL]) ''a.md''))
       = [0..<2]"
    by code_simp
  show ?thesis
    using split_into_chunks_ordinals
      [of "''Cats are mammals.'' @ [NL, NL] @ ''Dogs are mammals too.''" "[]" "''a.md''"]
      split_into_chunks_ordinals
      [of "''Cats are mammals.'' @ [NL, NL] @ ''Dogs are mammals too.'' @ [NL, NL, NL]" "[]" "''a.md''"]
    by - (rule c)
qed

text \<open>
  A paragraph of one space between two paragraphs takes the ordinal 1 with it: the two
  chunks that remain carry the ordinals 0 and 2.
\<close>

theorem ordinals_skip_discarded:
  "split_into_chunks [] (''Intro'' @ [NL, NL] @ '' '' @ [NL, NL] @ ''Body'') ''a.md'' =
     [\<lparr>content = ''Intro'', source = ''a.md'', chunk_id = 0\<rparr>,
      \<lparr>content = ''Body'', source = ''a.md'', chunk_id = 2\<rparr>]"
  by code_simp

section \<open>The batch\<close>

lemma batch_loop_prefix:
  assumes "\<forall>x \<in> set xs. \<not> isl (app_invoke env (initial_state (snd x)))"
  shows "batch_loop env jl out (xs @ ys) =
           batch_loop env jl (out @ map (written_line env jl) xs) ys"
  using assms
proof (induction xs arbitrary: out)
  case Nil
  then show ?case by simp
next
  case (Cons x xs)
  obtain i it where x: "x = (i, it)" by (cases x)
  from Cons.prems x obtain s where s: "app_invoke env (initial_state it) = Inr s"
    by (cases "app_invoke env (initial_state it)") auto
  have "batch_loop env jl out ((x # xs) @ ys) =
          batch_loop env jl (out @ [written_line env jl x]) (xs @ ys)"
    by (simp add: x s written_line_def)
  also have "\<dots> = batch_loop env jl ((out @ [written_line env jl x]) @ map (written_line env jl) xs) ys"
    using Cons.prems by (intro Cons.IH) simp
  finally show ?case by simp
qed

lemma snd_enumerate_mem: "x \<in> set (enumerate n ys) \<Longrightarrow> snd x \<in> set ys"
proof -
  assume "x \<in> set (enumerate n ys)"
  then have "snd x \<in> snd ` set (enumerate n ys)" by (rule imageI)
  then show ?thesis by (simp only: set_map [symmetric] map_snd_enumerate)
qed

lemma run_batch_all:
  assumes "\<forall>it \<in> set items. \<not> isl (app_invoke env (initial_state it))"
  shows "run_batch env jl items = (map (written_line env jl) (enumerate 0 items), None)"
proof -
  have "\<forall>x \<in> set (enumerate 0 items). \<not> isl (app_invoke env (initial_state (snd x)))"
    using assms snd_enumerate_mem by blast
  from batch_loop_prefix [OF this, of jl "[]" "[]"] show ?thesis
    by (simp add: run_batch_def)
qed

lemma run_batch_abort:
  assumes "n < length items"
    and "\<forall>it \<in> set (take n items). \<not> isl (app_invoke env (initial_state it))"
    and "app_invoke env (initial_state (items ! n)) = Inl e"
  shows "run_batch env jl items = (map (written_line env jl) (enumerate 0 (take n items)), Some e)"
proof -
  have split: "enumerate 0 items =
      enumerate 0 (take n items) @ (n, items ! n) # enumerate (Suc n) (drop (Suc n) items)"
  proof -
    have "items = take n items @ items ! n # drop (Suc n) items"
      using assms(1) by (simp add: id_take_nth_drop)
    then have "enumerate 0 items =
        enumerate 0 (take n items @ items ! n # drop (Suc n) items)"
      by simp
    also have "\<dots> = enumerate 0 (take n items)
        @ enumerate (0 + length (take n items)) (items ! n # drop (Suc n) items)"
      by (rule enumerate_append_eq)
    finally show ?thesis using assms(1) by (simp add: min_def)
  qed
  have "\<forall>x \<in> set (enumerate 0 (take n items)). \<not> isl (app_invoke env (initial_state (snd x)))"
    using assms(2) snd_enumerate_mem by blast
  from batch_loop_prefix [OF this, of jl "[]"] show ?thesis
    by (simp add: run_batch_def split assms(3))
qed

lemma output_json_error:
  assumes "final_answer s = None \<or> final_answer s = Some []
             \<or> (\<exists>raw. final_answer s = Some raw \<and> jl raw = None)"
  shows "output_json jl it i s =
           JObject [(''id'', (case item_id it of
                               Some v \<Rightarrow> v
                             | None \<Rightarrow> JString (''error_'' @ str_of_nat (i + 1)))),
                    (''error'', JString ''Failed to generate valid JSON response.''),
                    (''raw_output'', (case final_answer s of None \<Rightarrow> JNull | Some r \<Rightarrow> JString r))]"
  using assms by (auto simp: output_json_def error_record_def Let_def split: option.splits)

lemma output_json_parsed:
  "final_answer s = Some raw \<Longrightarrow> raw \<noteq> [] \<Longrightarrow> jl raw = Some j \<Longrightarrow> output_json jl it i s = j"
  by (simp add: output_json_def Let_def)

text \<open>
  Claim C7, as the code has it. The run of a record is started outside the block that
  catches errors. When every run returns, the batch writes one line for each record, in the
  order of the input. When the run of a record raises, whatever the failure, the batch ends
  there with that error: the lines of the records before it are written, and no later
  record is processed. The line of a record whose final answer is missing, empty or not
  parsable holds the identifier of the record, or \<open>error_\<close> followed by its position counted
  from 1, the fixed error text and the raw answer; otherwise the line is the parsed answer.
\<close>

theorem run_batch_lines:
  "((\<forall>it \<in> set items. \<not> isl (app_invoke env (initial_state it))) \<longrightarrow>
      run_batch env jl items = (map (written_line env jl) (enumerate 0 items), None)
      \<and> length (fst (run_batch env jl items)) = length items)
   \<and> (n < length items
        \<and> (\<forall>it \<in> set (take n items). \<not> isl (app_invoke env (initial_state it)))
        \<and> app_invoke env (initial_state (items ! n)) = Inl e \<longrightarrow>
      run_batch env jl items
        = (map (written_line env jl) (enumerate 0 (take n items)), Some e))
   \<and> (final_answer s = None \<or> final_answer s = Some []
        \<or> (\<exists>raw. final_answer s = Some raw \<and> jl raw = None) \<longrightarrow>
      output_json jl it i s =
        JObject [(''id'', (case item_id it of
                            Some v \<Rightarrow> v
                          | None \<Rightarrow> JString (''error_'' @ str_of_nat (i + 1)))),
                 (''error'', JString ''Failed to generate valid JSON response.''),
                 (''raw_output'', (case final_answer s of None \<Rightarrow> JNull | Some r \<Rightarrow> JString r))])
   \<and> (final_answer s = Some raw \<and> raw \<noteq> [] \<and> jl raw = Some j \<longrightarrow> output_json jl it i s = j)"
proof -
  have 1: "(\<forall>it \<in> set items. \<not> isl (app_invoke env (initial_state it))) \<longrightarrow>
      run_batch env jl items = (map (written_line env jl) (enumerate 0 items), None)
      \<and> length (fst (run_batch env jl items)) = length items"
    using run_batch_all [of items env jl] by simp
  have 2: "n < length items
        \<and> (\<forall>it \<in> set (take n items). \<not> isl (app_invoke env (initial_state it)))
        \<and> app_invoke env (initial_state (items ! n)) = Inl e \<longrightarrow>
      run_batch env jl items
        = (map (written_line env jl) (enumerate 0 (take n items)), Some e)"
    using run_batch_abort [of n items env e jl] by blast
  have 3: "final_answer s = None \<or> final_answer s = Some []
        \<or> (\<exists>raw. final_answer s = Some raw \<and> jl raw = None) \<longrightarrow>
      output_json jl it i s =
        JObject [(''id'', (case item_id it of
                            Some v \<Rightarrow> v
                          | None \<Rightarrow> JString (''error_'' @ str_of_nat (i + 1)))),
                 (''error'', JString ''Failed to generate valid JSON response.''),
                 (''raw_output'', (case final_answer s of None \<Rightarrow> JNull | Some r \<Rightarrow> JString r))]"
    using output_json_error [of s jl it i] by blast
  have 4: "final_answer s = Some raw \<and> raw \<noteq> [] \<and> jl raw = Some j \<longrightarrow> output_json jl it i s = j"
    using output_json_parsed [of s raw jl j it i] by blast
  show ?thesis
    by (intro conjI) (rule 1, rule 2, rule 3, rule 4)
qed

theorem run_batch_lines_witness:
  "\<not> isl (app_invoke weather_env (initial_state example_item))
   \<and> run_batch weather_env example_json_loads [example_item, example_item]
       = ([JObject [], JObject []], None)
   \<and> run_batch weather_env (\<lambda>s. None)
         [example_item, example_item\<lparr>item_id := Some (JString ''q2'')\<rparr>]
       = ([JObject [(''id'', JString ''error_1''),
                    (''error'', JString ''Failed to generate valid JSON response.''),
                    (''raw_output'', JString ''{}'')],
           JObject [(''id'', JString ''q2''),
                    (''error'', JString ''Failed to generate valid JSON response.''),
                    (''raw_output'', JString ''{}'')]], None)
   \<and> app_invoke weather_env (initial_state weather_item) = Inl BranchError
   \<and> run_batch weather_env example_json_loads [example_item, weather_item, example_item]
       = ([JObject []], Some BranchError)
   \<and> final_answer (example_state\<lparr>final_answer := Some ''{}''\<rparr>) = Some ''{}''
   \<and> example_json_loads ''{}'' = Some (JObject [])
   \<and> output_json example_json_loads example_item 0 (example_state\<lparr>final_answer := Some ''{}''\<rparr>)
       = JObject []
   \<and> output_json example_json_loads example_item 0 (example_state\<lparr>final_answer := Some ''oops''\<rparr>)
       = JObject [(''id'', JString ''error_1''),
                  (''error'', JString ''Failed to generate valid JSON response.''),
                  (''raw_output'', JString ''oops'')]"
proof -
  have c: "\<not> isl (app_invoke weather_env (initial_state example_item))
   \<and> run_batch weather_env example_json_loads [example_item, example_item]
       = ([JObject [], JObject []], None)
   \<and> run_batch weather_env (\<lambda>s. None)
         [example_item, example_item\<lparr>item_id := Some (JString ''q2'')\<rparr>]
       = ([JObject [(''id'', JString ''error_1''),
                    (''error'', JString ''Failed to generate valid JSON response.''),
                    (''raw_output'', JString ''{}'')],
           JObject [(''id'', JString ''q2''),
                    (''error'', JString ''Failed to generate valid JSON response.''),
                    (''raw_output'', JString ''{}'')]], None)
   \<and> app_invoke weather_env (initial_state weather_item) = Inl BranchError
   \<and> run_batch weather_env example_json_loads [example_item, weather_item, example_item]
       = ([JObject []], Some BranchError)
   \<and> final_answer (example_state\<lparr>final_answer := Some ''{}''\<rparr>) = Some ''{}''
   \<and> example_json_loads ''{}'' = Some (JObject [])
   \<and> output_json example_json_loads example_item 0 (example_state\<lparr>final_answer := Some ''{}''\<rparr>)
       = JObject []
   \<and> output_json example_json_loads example_item 0 (example_state\<lparr>final_answer := Some ''oops''\<rparr>)
       = JObject [(''id'', JString ''error_1''),
                  (''error'', JString ''Failed to generate valid JSON response.''),
                  (''raw_output'', JString ''oops'')]"
    by code_simp
  show ?thesis
    using run_batch_lines [of "[example_item, example_item]" weather_env example_json_loads]
    by - (rule c)
qed

text \<open>
  A batch of three records whose second run fails at the dispatch: one line is written and
  the third record is never processed.
\<close>

theorem failed_run_aborts_batch:
  "app_invoke weather_env (initial_state weather_item) = Inl BranchError
   \<and> run_batch weather_env example_json_loads [example_item, weather_item, example_item]
       = ([JObject []], Some BranchError)
   \<and> length (fst (run_batch weather_env example_json_loads [example_item, weather_item, example_item]))
       \<noteq> length [example_item, weather_item, example_item]"
  by code_simp

section \<open>The end of a run\<close>

lemma closer_simps [simp]:
  "closer c (Inl e) = (e \<noteq> GraphRecursionError)"
  "closer c (Inr c') = (steps_left c' < steps_left c)"
  by (simp_all add: closer_def)

lemma collect_results_error: "collect_results sims cs idx = Inl e \<Longrightarrow> e = IndexError"
  by (induction idx) (auto split: if_splits sum.splits)

lemma search_error: "search argsort transform cosine r query k = Inl e \<Longrightarrow> e = IndexError"
  by (auto simp: search_def Let_def split: option.splits if_splits dest: collect_results_error)

lemma closer_Router:
  "wf_config ([Router], s) \<Longrightarrow> closer ([Router], s) (superstep env ([Router], s))"
  by (simp add: superstep_Router wf_config_def steps_left_def Let_def)

lemma closer_Retrieve:
  "wf_config ([Retrieve_docs], s) \<Longrightarrow> closer ([Retrieve_docs], s) (superstep env ([Retrieve_docs], s))"
  by (auto simp: superstep_Retrieve_docs wf_config_def steps_left_def Let_def
      split: sum.splits dest: search_error)

lemma closer_Synthesize_Generate:
  "wf_config ([Synthesize, Generate_sql], s) \<Longrightarrow>
     closer ([Synthesize, Generate_sql], s) (superstep env ([Synthesize, Generate_sql], s))"
  by (simp add: superstep_Synthesize_Generate_sql wf_config_def steps_left_def Let_def)

lemma closer_Generate:
  "wf_config ([Generate_sql], s) \<Longrightarrow> closer ([Generate_sql], s) (superstep env ([Generate_sql], s))"
  by (simp add: superstep_Generate_sql wf_config_def steps_left_def Let_def)

lemma closer_Execute:
  "wf_config ([Execute_sql], s) \<Longrightarrow> closer ([Execute_sql], s) (superstep env ([Execute_sql], s))"
  by (simp add: superstep_Execute_sql wf_config_def steps_left_def Let_def
      split: sum.splits option.splits)

lemma closer_Synthesize:
  "wf_config ([Synthesize], s) \<Longrightarrow> closer ([Synthesize], s) (superstep env ([Synthesize], s))"
  by (simp add: superstep_Synthesize wf_config_def steps_left_def Let_def)

lemma closer_step:
  assumes "wf_config c" and "fst c \<noteq> []"
  shows "closer c (superstep env c)"
proof -
  obtain ns s where c: "c = (ns, s)" by (cases c)
  have wf: "wf_config (ns, s)" using assms(1) c by simp
  from wf_nodes [OF wf] show ?thesis unfolding c
  proof (elim disjE)
    assume "ns = [Router]"
    with wf show "closer (ns, s) (superstep env (ns, s))" by (simp add: closer_Router)
  next
    assume "ns = [Retrieve_docs]"
    with wf show "closer (ns, s) (superstep env (ns, s))" by (simp add: closer_Retrieve)
  next
    assume "ns = [Synthesize, Generate_sql]"
    with wf show "closer (ns, s) (superstep env (ns, s))" by (simp add: closer_Synthesize_Generate)
  next
    assume "ns = [Generate_sql]"
    with wf show "closer (ns, s) (superstep env (ns, s))" by (simp add: closer_Generate)
  next
    assume "ns = [Execute_sql]"
    with wf show "closer (ns, s) (superstep env (ns, s))" by (simp add: closer_Execute)
  next
    assume "ns = [Synthesize]"
    with wf show "closer (ns, s) (superstep env (ns, s))" by (simp add: closer_Synthesize)
  next
    assume "ns = []"
    with assms(2) c show "closer (ns, s) (superstep env (ns, s))" by simp
  qed
qed

lemma run_within_limit:
  "wf_config c \<Longrightarrow> steps_left c \<le> length envs \<Longrightarrow> run envs c \<noteq> Inl GraphRecursionError"
proof (induction envs arbitrary: c)
  case Nil
  obtain ns s where c: "c = (ns, s)" by (cases c)
  have "ns = []"
    using wf_nodes [of ns s] Nil c by (auto simp: steps_left_def Let_def split: if_splits)
  with c show ?case by simp
next
  case (Cons env envs)
  obtain ns s where c: "c = (ns, s)" by (cases c)
  show ?case
  proof (cases ns)
    case Nil
    with c show ?thesis by simp
  next
    case (Cons n ns')
    with c have ne: "fst c \<noteq> []" by simp
    show ?thesis
    proof (cases "superstep env c")
      case (Inl e)
      with closer_step [OF Cons.prems(1) ne, of env] have "e \<noteq> GraphRecursionError" by simp
      with Inl c Cons show ?thesis by simp
    next
      case (Inr c')
      with closer_step [OF Cons.prems(1) ne, of env] have "steps_left c' < steps_left c" by simp
      with Cons.prems(2) have "steps_left c' \<le> length envs" by simp
      moreover have "wf_config c'" using Cons.prems(1) Inr by (rule wf_step)
      ultimately have "run envs c' \<noteq> Inl GraphRecursionError" by (rule Cons.IH [rotated])
      with Inr c Cons show ?thesis by simp
    qed
  qed
qed

lemma trace_length:
  "wf_config c \<Longrightarrow> length (trace envs c) \<le> steps_left c + 1"
proof (induction envs arbitrary: c)
  case Nil
  then show ?case by simp
next
  case (Cons env envs)
  show ?case
  proof (cases "fst c = []")
    case True
    then show ?thesis by simp
  next
    case False
    show ?thesis
    proof (cases "superstep env c")
      case (Inl e)
      with False show ?thesis by simp
    next
      case (Inr c')
      with closer_step [OF Cons.prems False, of env] have lt: "steps_left c' < steps_left c" by simp
      have "wf_config c'" using Cons.prems Inr by (rule wf_step)
      then have "length (trace envs c') \<le> steps_left c' + 1" by (rule Cons.IH)
      with lt False Inr show ?thesis by simp
    qed
  qed
qed

text \<open>
  Every run from the entry point ends: it goes through at most eight configurations, seven
  steps, whatever the collaborators answer, and so never reaches the step limit of the
  runtime.
\<close>

theorem run_ends_within_seven_steps:
  "app_invoke env (initial_state it) \<noteq> Inl GraphRecursionError
   \<and> length (trace envs ([Router], initial_state it)) \<le> 8"
proof -
  have "run (replicate recursion_limit env) ([Router], initial_state it) \<noteq> Inl GraphRecursionError"
    by (intro run_within_limit wf_initial) (simp add: recursion_limit_def steps_left_def)
  moreover have "length (trace envs ([Router], initial_state it)) \<le> 8"
    using trace_length [OF wf_initial, of envs it] by (simp add: steps_left_def)
  ultimately show ?thesis by (simp add: app_invoke_def)
qed

end
